theory Spec2Isabelle
  imports Complex_Main
begin

section \<open>Google Trends segmentation and rescaling pipeline\<close>

text \<open>
  A shallow embedding of \<^verbatim>\<open>Google_Trends_2.1.0.0.py\<close>: the range segmenter
  \<^verbatim>\<open>divide_timeframe_range\<close>, the granularity inference
  \<^verbatim>\<open>determine_overall_granularity_from_data\<close> and the fetch, zero-fill and
  rescale passes of \<^verbatim>\<open>get_data\<close>.

  Conventions of the embedding.
  \<^item> A calendar date is its proleptic Gregorian ordinal (\<^verbatim>\<open>date.toordinal()\<close>), an
    \<open>int\<close>. With the format \<^verbatim>\<open>'%Y-%m-%d'\<close>, \<^verbatim>\<open>strptime\<close> and \<^verbatim>\<open>strftime\<close> are mutually
    inverse between well-formed date strings and the ordinals 1 (0001-01-01) to
    3652059 (9999-12-31); an ordinal outside that range stands for a string that
    \<^verbatim>\<open>strptime\<close> rejects. All parsed values are midnights, so the \<^verbatim>\<open>.days\<close> of a
    difference is the difference of the ordinals.
  \<^item> Every exception is a value of type \<open>error\<close>; a function that can raise returns
    \<open>error + 'a\<close> with \<open>Inl\<close> the exception.
  \<^item> The \<^verbatim>\<open>while\<close> loop of the segmenter does not terminate for every integer
    \<^verbatim>\<open>num_segments\<close>, so it is a partial function whose value \<open>None\<close> means that the
    loop runs forever.
  \<^item> Interest scores are exact real numbers: the rounding of float64 division and
    multiplication is not modelled.
\<close>

datatype error = ValueError | OverflowError | IndexError | KeyError | RequestError

definition bind_err :: "error + 'a \<Rightarrow> ('a \<Rightarrow> error + 'b) \<Rightarrow> error + 'b" where
  "bind_err m f = (case m of Inl e \<Rightarrow> Inl e | Inr x \<Rightarrow> f x)"

subsection \<open>Dates\<close>

definition min_ordinal :: int where
  "min_ordinal = 1"

definition max_ordinal :: int where
  "max_ordinal = 3652059"

definition valid_date :: "int \<Rightarrow> bool" where
  "valid_date d \<longleftrightarrow> min_ordinal \<le> d \<and> d \<le> max_ordinal"

text \<open>\<^verbatim>\<open>datetime.strptime(s, '%Y-%m-%d')\<close>: a malformed string raises ValueError.\<close>

definition strptime :: "int \<Rightarrow> error + int" where
  "strptime d = (if valid_date d then Inr d else Inl ValueError)"

text \<open>\<^verbatim>\<open>d + timedelta(days=n)\<close>: a result outside year 1..9999 raises OverflowError.\<close>

definition date_add :: "int \<Rightarrow> int \<Rightarrow> error + int" where
  "date_add d n = (if valid_date (d + n) then Inr (d + n) else Inl OverflowError)"

subsection \<open>The range segmenter\<close>

text \<open>
  The loop of \<^verbatim>\<open>divide_timeframe_range\<close>:
  \<^verbatim>\<open>
    while current_start < end_date_obj:
        current_end = min(current_start + delta, end_date_obj)
        segments.append((current_start.strftime(..), current_end.strftime(..)))
        current_start = current_end + timedelta(days=1)
    return segments
  \<close>
\<close>

partial_function (option) segment_loop ::
  "int \<Rightarrow> int \<Rightarrow> int \<Rightarrow> (int \<times> int) list \<Rightarrow> (error + (int \<times> int) list) option" where
  "segment_loop current_start delta end_date_obj segments =
     (if current_start < end_date_obj then
        (case date_add current_start delta of
           Inl e \<Rightarrow> Some (Inl e)
         | Inr t \<Rightarrow>
             (let current_end = min t end_date_obj in
              case date_add current_end 1 of
                Inl e \<Rightarrow> Some (Inl e)
              | Inr next_start \<Rightarrow>
                  segment_loop next_start delta end_date_obj
                    (segments @ [(current_start, current_end)])))
      else Some (Inr segments))"

declare segment_loop.simps [code]

text \<open>
  \<^verbatim>\<open>divide_timeframe_range(start_date, end_date, granularity, num_segments=None)\<close>.
  \<^verbatim>\<open>if num_segments:\<close> is false for \<^verbatim>\<open>None\<close> and for 0, and true for every other integer;
  \<^verbatim>\<open>//\<close> is floor division, as \<open>div\<close> on \<open>int\<close> is.
\<close>

definition divide_timeframe_range ::
  "int \<Rightarrow> int \<Rightarrow> string \<Rightarrow> int option \<Rightarrow> (error + (int \<times> int) list) option" where
  "divide_timeframe_range start_date end_date granularity num_segments =
     (case strptime start_date of
        Inl e \<Rightarrow> Some (Inl e)
      | Inr start_date_obj \<Rightarrow>
     (case strptime end_date of
        Inl e \<Rightarrow> Some (Inl e)
      | Inr end_date_obj \<Rightarrow>
         (let total_days = end_date_obj - start_date_obj in
          case (if num_segments = Some 0 then None else num_segments) of
            Some n \<Rightarrow> segment_loop start_date_obj (total_days div n) end_date_obj []
          | None \<Rightarrow>
              if granularity = ''d'' then segment_loop start_date_obj 269 end_date_obj []
              else if granularity = ''w'' then segment_loop start_date_obj 1889 end_date_obj []
              else Some (Inr [(start_date, end_date)]))))"

subsection \<open>Granularity inference\<close>

text \<open>
  The index of a DataFrame is a list of timestamps, each the number of nanoseconds
  since the epoch (pandas' \<^verbatim>\<open>datetime64[ns]\<close>, an int64 other than the missing-value
  pattern \<open>- 2 ^ 63\<close>).
  \<^verbatim>\<open>data.index.to_series().diff().dropna().dt.days\<close>: \<^verbatim>\<open>diff\<close> puts a missing value at
  the first position, which \<^verbatim>\<open>dropna\<close> removes, and the difference to the predecessor
  elsewhere. A difference is a \<^verbatim>\<open>timedelta64[ns]\<close>, again an int64 other than
  \<open>- 2 ^ 63\<close>: the subtraction raises OverflowError when a difference does not fit.
  \<^verbatim>\<open>.dt.days\<close> is the days component of the difference, rounded down.
\<close>

definition ns_per_day :: int where
  "ns_per_day = 86400000000000"

definition timedelta_fits :: "int \<Rightarrow> bool" where
  "timedelta_fits d \<longleftrightarrow> - (2 ^ 63) < d \<and> d < 2 ^ 63"

definition gaps_fit :: "int list \<Rightarrow> bool" where
  "gaps_fit idx \<longleftrightarrow> list_all (\<lambda>(a, b). timedelta_fits (b - a)) (zip idx (tl idx))"

definition gap_days :: "int list \<Rightarrow> int list" where
  "gap_days idx = map (\<lambda>(a, b). (b - a) div ns_per_day) (zip idx (tl idx))"

definition date_diffs :: "int list \<Rightarrow> error + int list" where
  "date_diffs idx = (if gaps_fit idx then Inr (gap_days idx) else Inl OverflowError)"

text \<open>
  \<^verbatim>\<open>Series.mode()\<close>: the values that occur most often, in ascending order; empty for
  an empty series.
\<close>

definition mode :: "int list \<Rightarrow> int list" where
  "mode xs =
     sort (remdups (filter (\<lambda>x. \<forall>y \<in> set xs. count_list xs y \<le> count_list xs x) xs))"

text \<open>\<^verbatim>\<open>s.iloc[i]\<close>: a negative position counts from the end; out of range raises IndexError.\<close>

definition iloc :: "'a list \<Rightarrow> int \<Rightarrow> error + 'a" where
  "iloc xs i =
     (if 0 \<le> i \<and> i < int (length xs) then Inr (xs ! nat i)
      else if i < 0 \<and> - int (length xs) \<le> i then Inr (xs ! nat (int (length xs) + i))
      else Inl IndexError)"

definition determine_overall_granularity_from_data :: "int list \<Rightarrow> error + string" where
  "determine_overall_granularity_from_data idx =
     bind_err (date_diffs idx) (\<lambda>diffs.
     bind_err (iloc (mode diffs) 0) (\<lambda>common_diff.
       if common_diff = 1 then Inr ''daily''
       else if common_diff \<le> 7 then Inr ''weekly''
       else Inr ''monthly''))"

text \<open>
  Predicates on inputs: \<open>most_common m ds\<close> says that \<open>m\<close> is the gap that occurs most
  often in \<open>ds\<close>, and the smallest such gap if several occur equally often;
  \<open>uniform_gaps g idx\<close> says that consecutive timestamps of \<open>idx\<close> are exactly \<open>g\<close> days
  apart.
\<close>

definition most_common :: "int \<Rightarrow> int list \<Rightarrow> bool" where
  "most_common m ds \<longleftrightarrow>
     m \<in> set ds \<and>
     (\<forall>d \<in> set ds. count_list ds d \<le> count_list ds m \<and>
                    (count_list ds d = count_list ds m \<longrightarrow> m \<le> d))"

definition uniform_gaps :: "int \<Rightarrow> int list \<Rightarrow> bool" where
  "uniform_gaps g idx \<longleftrightarrow> list_all (\<lambda>(a, b). b - a = g * ns_per_day) (zip idx (tl idx))"

subsection \<open>DataFrames\<close>

text \<open>
  A DataFrame is its index (one timestamp per row) and its columns in order, each a
  name and one cell per row. The frames that \<^verbatim>\<open>interest_over_time()\<close> returns hold
  numbers (the \<^verbatim>\<open>isPartial\<close> flag as 0 or 1); the frame that \<^verbatim>\<open>pd.concat\<close> builds can
  hold missing cells, so the cell type is a parameter. pandas keeps every column as
  long as the index, which \<open>wf_frame\<close> states.
\<close>

record 'v dataframe =
  index :: "int list"
  columns :: "(string \<times> 'v list) list"

definition column_names :: "'v dataframe \<Rightarrow> string list" where
  "column_names df = map fst (columns df)"

definition wf_frame :: "'v dataframe \<Rightarrow> bool" where
  "wf_frame df \<longleftrightarrow> list_all (\<lambda>(k, c). length c = length (index df)) (columns df)"

text \<open>\<^verbatim>\<open>df.empty\<close>: true when either axis has length 0.\<close>

definition df_empty :: "'v dataframe \<Rightarrow> bool" where
  "df_empty df \<longleftrightarrow> index df = [] \<or> columns df = []"

text \<open>\<^verbatim>\<open>df[keyword]\<close>: a missing column raises KeyError.\<close>

definition getitem :: "'v dataframe \<Rightarrow> string \<Rightarrow> error + 'v list" where
  "getitem df keyword =
     (case map_of (columns df) keyword of None \<Rightarrow> Inl KeyError | Some c \<Rightarrow> Inr c)"

text \<open>\<^verbatim>\<open>df[keyword] = c\<close>: replaces the column in place, or appends a new last column.\<close>

definition setitem :: "'v dataframe \<Rightarrow> string \<Rightarrow> 'v list \<Rightarrow> 'v dataframe" where
  "setitem df keyword c =
     (if keyword \<in> set (column_names df)
      then df\<lparr>columns := map (\<lambda>(k, old). if k = keyword then (k, c) else (k, old)) (columns df)\<rparr>
      else df\<lparr>columns := columns df @ [(keyword, c)]\<rparr>)"

text \<open>
  \<^verbatim>\<open>pd.concat(frames)\<close>: rows stacked in order; the columns are the union of the
  frames' columns in order of first appearance, a frame without a column
  contributing missing cells (\<open>None\<close>). An empty list raises ValueError.
\<close>

definition pd_concat :: "real dataframe list \<Rightarrow> error + real option dataframe" where
  "pd_concat dfs =
     (if dfs = [] then Inl ValueError
      else Inr \<lparr>index = concat (map index dfs),
                columns =
                  map (\<lambda>k. (k, concat (map (\<lambda>df. case map_of (columns df) k of
                                                      Some c \<Rightarrow> map Some c
                                                    | None \<Rightarrow> replicate (length (index df)) None)
                                           dfs)))
                      (rev (remdups (rev (concat (map column_names dfs)))))\<rparr>)"

subsection \<open>Fetching and rescaling\<close>

text \<open>
  The zero-fill of one fetched segment:
  \<^verbatim>\<open>
    for keyword in keywords:
        if keyword not in segment_data.columns:
            segment_data[keyword] = 0
  \<close>
\<close>

fun fill_missing :: "string list \<Rightarrow> real dataframe \<Rightarrow> real dataframe" where
  "fill_missing [] segment_data = segment_data"
| "fill_missing (keyword # rest) segment_data =
     fill_missing rest
       (if keyword \<notin> set (column_names segment_data)
        then setitem segment_data keyword (replicate (length (index segment_data)) 0)
        else segment_data)"

text \<open>
  The fetch loop. The trends source is a parameter: \<open>interest_over_time\<close> takes the
  payload (keyword list, time range, region, category) and returns a frame or fails.
  The pause between requests has no effect on the data.
\<close>

fun fetch_segments ::
  "(string list \<Rightarrow> int \<times> int \<Rightarrow> string \<Rightarrow> string \<Rightarrow> error + real dataframe) \<Rightarrow>
   string list \<Rightarrow> string \<Rightarrow> bool \<Rightarrow> (int \<times> int) list \<Rightarrow> real dataframe list \<Rightarrow>
   error + real dataframe list" where
  "fetch_segments interest_over_time keywords geo youtube [] trends_data = Inr trends_data"
| "fetch_segments interest_over_time keywords geo youtube (time_range # rest) trends_data =
     bind_err (interest_over_time keywords time_range geo (if youtube then ''29'' else ''0''))
       (\<lambda>segment_data.
          fetch_segments interest_over_time keywords geo youtube rest
            (trends_data @ [fill_missing keywords segment_data]))"

text \<open>
  The scale factor of one keyword at one boundary:
  \<^verbatim>\<open>
    if not trends_data[i].empty:
        mean_current_start = trends_data[i][keyword].iloc[0]
    else:
        mean_current_start = 0
    if not trends_data[i-1].empty:
        mean_previous_end = trends_data[i-1][keyword].iloc[-1]
    else:
        mean_previous_end = 0
    scale_factor = mean_current_start / mean_previous_end if mean_previous_end != 0 else 1
  \<close>
\<close>

definition scale_factor :: "real dataframe \<Rightarrow> real dataframe \<Rightarrow> string \<Rightarrow> error + real" where
  "scale_factor current previous keyword =
     bind_err (if \<not> df_empty current
               then bind_err (getitem current keyword) (\<lambda>c. iloc c 0) else Inr 0)
       (\<lambda>mean_current_start.
     bind_err (if \<not> df_empty previous
               then bind_err (getitem previous keyword) (\<lambda>c. iloc c (- 1)) else Inr 0)
       (\<lambda>mean_previous_end.
     Inr (if mean_previous_end \<noteq> 0 then mean_current_start / mean_previous_end else 1)))"

text \<open>\<^verbatim>\<open>df[keyword] *= s\<close>, that is \<^verbatim>\<open>df[keyword] = df[keyword] * s\<close>.\<close>

definition imul :: "real dataframe \<Rightarrow> string \<Rightarrow> real \<Rightarrow> error + real dataframe" where
  "imul df keyword s =
     bind_err (getitem df keyword) (\<lambda>c. Inr (setitem df keyword (map (\<lambda>v. v * s) c)))"

text \<open>The body of the inner loop: \<^verbatim>\<open>trends_data[i-1][keyword] *= scale_factor\<close>.\<close>

definition rescale_keyword ::
  "real dataframe list \<Rightarrow> nat \<Rightarrow> string \<Rightarrow> error + real dataframe list" where
  "rescale_keyword trends_data i keyword =
     bind_err (scale_factor (trends_data ! i) (trends_data ! (i - 1)) keyword) (\<lambda>s.
     bind_err (imul (trends_data ! (i - 1)) keyword s) (\<lambda>df.
     Inr (trends_data[i - 1 := df])))"

text \<open>\<^verbatim>\<open>for keyword in keywords: ...\<close>\<close>

fun rescale_keywords ::
  "real dataframe list \<Rightarrow> nat \<Rightarrow> string list \<Rightarrow> error + real dataframe list" where
  "rescale_keywords trends_data i [] = Inr trends_data"
| "rescale_keywords trends_data i (keyword # rest) =
     bind_err (rescale_keyword trends_data i keyword) (\<lambda>td. rescale_keywords td i rest)"

text \<open>\<^verbatim>\<open>for i in range(1, len(segments)): ...\<close>, over the list of values of \<open>i\<close>.\<close>

fun rescale_segments ::
  "real dataframe list \<Rightarrow> string list \<Rightarrow> nat list \<Rightarrow> error + real dataframe list" where
  "rescale_segments trends_data keywords [] = Inr trends_data"
| "rescale_segments trends_data keywords (i # rest) =
     bind_err (rescale_keywords trends_data i keywords)
       (\<lambda>td. rescale_segments td keywords rest)"

definition adjust_scaling ::
  "real dataframe list \<Rightarrow> string list \<Rightarrow> nat \<Rightarrow> error + real dataframe list" where
  "adjust_scaling trends_data keywords n = rescale_segments trends_data keywords [1..<n]"

text \<open>
  \<^verbatim>\<open>get_data(keywords, timeframe_range, geo, youtube, granularity)\<close>: segment, fetch
  and zero-fill, rescale, concatenate, infer the granularity (an exception there
  aborts the call), return the combined frame.
\<close>

definition get_data ::
  "(string list \<Rightarrow> int \<times> int \<Rightarrow> string \<Rightarrow> string \<Rightarrow> error + real dataframe) \<Rightarrow>
   string list \<Rightarrow> int \<times> int \<Rightarrow> string \<Rightarrow> bool \<Rightarrow> string \<Rightarrow>
   (error + real option dataframe) option" where
  "get_data interest_over_time keywords timeframe_range geo youtube granularity =
     (case divide_timeframe_range (fst timeframe_range) (snd timeframe_range) granularity None of
        None \<Rightarrow> None
      | Some r \<Rightarrow> Some (
          bind_err r (\<lambda>segments.
          bind_err (fetch_segments interest_over_time keywords geo youtube segments [])
            (\<lambda>trends_data.
          bind_err (adjust_scaling trends_data keywords (length segments)) (\<lambda>rescaled.
          bind_err (pd_concat rescaled) (\<lambda>combined_data.
          bind_err (determine_overall_granularity_from_data (index combined_data))
            (\<lambda>overall_granularity.
          Inr combined_data)))))))"

text \<open>
  The rows of a column of the combined frame that come from segment \<open>j\<close>:
  \<^verbatim>\<open>pd.concat\<close> stacks the frames in order, so they follow the rows of the segments
  before \<open>j\<close>.
\<close>

definition segment_rows :: "'v dataframe list \<Rightarrow> nat \<Rightarrow> 'a list \<Rightarrow> 'a list" where
  "segment_rows dfs j col =
     take (length (index (dfs ! j))) (drop (length (concat (map index (take j dfs)))) col)"

text \<open>
  Two notions used to state what the rescale loops compute. \<open>scale_value h c\<close> is the
  value of \<open>scale_factor\<close> in terms of the keyword's column \<open>h\<close> in the current frame
  and \<open>c\<close> in the previous one (lemma \<open>scale_factor_value\<close>). \<open>rescaled_on S current
  previous p\<close> says that \<open>p\<close> is \<open>previous\<close> with the column of every keyword in \<open>S\<close>
  multiplied by that keyword's scale value and everything else unchanged.
\<close>

definition scale_value :: "real list \<Rightarrow> real list \<Rightarrow> real" where
  "scale_value h c =
     (if c = [] \<or> last c = 0 then 1 else (if h = [] then 0 else hd h) / last c)"

definition rescaled_on ::
  "string set \<Rightarrow> real dataframe \<Rightarrow> real dataframe \<Rightarrow> real dataframe \<Rightarrow> bool" where
  "rescaled_on S current previous p \<longleftrightarrow>
     wf_frame p \<and> index p = index previous \<and> column_names p = column_names previous \<and>
     (\<forall>k. k \<notin> S \<longrightarrow> map_of (columns p) k = map_of (columns previous) k) \<and>
     (\<forall>k \<in> S. \<forall>h c. map_of (columns current) k = Some h \<longrightarrow>
        map_of (columns previous) k = Some c \<longrightarrow>
        map_of (columns p) k = Some (map (\<lambda>v. v * scale_value h c) c))"

subsection \<open>Properties of the segmenter\<close>

lemma segment_loop_spans:
  assumes "0 \<le> delta"
  shows "\<exists>r. segment_loop cs delta e acc = Some r \<and>
           (\<forall>segs. r = Inr segs \<longrightarrow>
              (\<exists>new. segs = acc @ new \<and> (\<forall>(a, b) \<in> set new. 0 \<le> b - a \<and> b - a \<le> delta)))"
proof (induction "nat (e - cs)" arbitrary: cs acc rule: less_induct)
  case less
  show ?case
  proof (cases "cs < e")
    case False
    then show ?thesis by (subst segment_loop.simps) simp
  next
    case True
    show ?thesis
    proof (cases "date_add cs delta")
      case (Inl err)
      with True show ?thesis by (subst segment_loop.simps) simp
    next
      case (Inr t)
      then have t: "t = cs + delta"
        by (auto simp: date_add_def split: if_splits)
      show ?thesis
      proof (cases "date_add (min t e) 1")
        case (Inl err)
        with True Inr show ?thesis by (subst segment_loop.simps) simp
      next
        case nxt: (Inr next_start)
        then have n: "next_start = min t e + 1"
          by (auto simp: date_add_def split: if_splits)
        have "nat (e - next_start) < nat (e - cs)"
          using True assms t n by auto
        from less [OF this, of "acc @ [(cs, min t e)]"]
        obtain r where r: "segment_loop next_start delta e (acc @ [(cs, min t e)]) = Some r"
          and rs: "\<forall>segs. r = Inr segs \<longrightarrow>
              (\<exists>new. segs = (acc @ [(cs, min t e)]) @ new \<and>
                 (\<forall>(a, b) \<in> set new. 0 \<le> b - a \<and> b - a \<le> delta))"
          by blast
        have eq: "segment_loop cs delta e acc = Some r"
          using True Inr nxt r by (subst segment_loop.simps) simp
        have "\<exists>new. segs = acc @ new \<and> (\<forall>(a, b) \<in> set new. 0 \<le> b - a \<and> b - a \<le> delta)"
          if "r = Inr segs" for segs
        proof -
          from rs that obtain new where new: "segs = (acc @ [(cs, min t e)]) @ new"
            and sp: "\<forall>(a, b) \<in> set new. 0 \<le> b - a \<and> b - a \<le> delta"
            by blast
          have "segs = acc @ ((cs, min t e) # new)" using new by simp
          moreover have "\<forall>(a, b) \<in> set ((cs, min t e) # new). 0 \<le> b - a \<and> b - a \<le> delta"
            using sp True assms t by auto
          ultimately show ?thesis by blast
        qed
        with eq show ?thesis by blast
      qed
    qed
  qed
qed

text \<open>
  C6: when no \<^verbatim>\<open>num_segments\<close> is supplied, the call with granularity \<^verbatim>\<open>"d"\<close> returns
  (a list or an exception, never a running loop), and every segment of a returned
  list spans at most 269 days; with granularity \<^verbatim>\<open>"w"\<close> the cap is 1889 days.
\<close>

theorem segment_span_cap:
  "(\<exists>r. divide_timeframe_range s e ''d'' None = Some r \<and>
        (\<forall>segs. r = Inr segs \<longrightarrow> (\<forall>(a, b) \<in> set segs. 0 \<le> b - a \<and> b - a \<le> 269))) \<and>
   (\<exists>r. divide_timeframe_range s e ''w'' None = Some r \<and>
        (\<forall>segs. r = Inr segs \<longrightarrow> (\<forall>(a, b) \<in> set segs. 0 \<le> b - a \<and> b - a \<le> 1889)))"
proof
  have d: "\<exists>r. segment_loop s 269 e [] = Some r \<and>
      (\<forall>segs. r = Inr segs \<longrightarrow> (\<forall>(a, b) \<in> set segs. 0 \<le> b - a \<and> b - a \<le> 269))"
    using segment_loop_spans [of 269 s e "[]"] by auto
  show "\<exists>r. divide_timeframe_range s e ''d'' None = Some r \<and>
        (\<forall>segs. r = Inr segs \<longrightarrow> (\<forall>(a, b) \<in> set segs. 0 \<le> b - a \<and> b - a \<le> 269))"
    using d by (auto simp: divide_timeframe_range_def strptime_def)
next
  have w: "\<exists>r. segment_loop s 1889 e [] = Some r \<and>
      (\<forall>segs. r = Inr segs \<longrightarrow> (\<forall>(a, b) \<in> set segs. 0 \<le> b - a \<and> b - a \<le> 1889))"
    using segment_loop_spans [of 1889 s e "[]"] by auto
  show "\<exists>r. divide_timeframe_range s e ''w'' None = Some r \<and>
        (\<forall>segs. r = Inr segs \<longrightarrow> (\<forall>(a, b) \<in> set segs. 0 \<le> b - a \<and> b - a \<le> 1889))"
    using w by (auto simp: divide_timeframe_range_def strptime_def)
qed

theorem segment_span_cap_witness:
  "divide_timeframe_range 737425 737800 ''d'' None =
     Some (Inr [(737425, 737694), (737695, 737800)]) \<and>
   list_all (\<lambda>(a, b). 0 \<le> b - a \<and> b - a \<le> 269) [(737425, 737694), (737695, 737800 :: int)] \<and>
   divide_timeframe_range 737425 739400 ''w'' None =
     Some (Inr [(737425, 739314), (739315, 739400)]) \<and>
   list_all (\<lambda>(a, b). 0 \<le> b - a \<and> b - a \<le> 1889) [(737425, 739314), (739315, 739400 :: int)]"
proof -
  have d: "divide_timeframe_range 737425 737800 ''d'' None =
     Some (Inr [(737425, 737694), (737695, 737800)])"
    by (simp add: divide_timeframe_range_def strptime_def valid_date_def min_ordinal_def
      max_ordinal_def date_add_def segment_loop.simps)
  have w: "divide_timeframe_range 737425 739400 ''w'' None =
     Some (Inr [(737425, 739314), (739315, 739400)])"
    by (simp add: divide_timeframe_range_def strptime_def valid_date_def min_ordinal_def
      max_ordinal_def date_add_def segment_loop.simps)
  from segment_span_cap [of 737425 737800] d
  have "\<forall>(a, b) \<in> set [(737425, 737694), (737695, 737800 :: int)]. 0 \<le> b - a \<and> b - a \<le> 269"
    by (elim conjE exE) (simp del: split_paired_All)
  then have dl: "list_all (\<lambda>(a, b). 0 \<le> b - a \<and> b - a \<le> 269)
      [(737425, 737694), (737695, 737800 :: int)]"
    by (simp only: list_all_iff)
  from segment_span_cap [of 737425 739400] w
  have "\<forall>(a, b) \<in> set [(737425, 739314), (739315, 739400 :: int)]. 0 \<le> b - a \<and> b - a \<le> 1889"
    by (elim conjE exE) (simp del: split_paired_All)
  then have wl: "list_all (\<lambda>(a, b). 0 \<le> b - a \<and> b - a \<le> 1889)
      [(737425, 739314), (739315, 739400 :: int)]"
    by (simp only: list_all_iff)
  show ?thesis by (rule conjI [OF d conjI [OF dl conjI [OF w wl]]])
qed

text \<open>
  C3 (coverage), evaluated at 2020-01-01 to 2020-09-27 (ordinals 737425 and 737695,
  270 days apart) with granularity \<^verbatim>\<open>"d"\<close>: the only segment returned ends on
  2020-09-26, so the last day of the range is in no segment. After the first
  segment the running start equals the end date and \<^verbatim>\<open>current_start < end_date_obj\<close>
  stops the loop.
\<close>

theorem coverage_misses_last_day:
  "divide_timeframe_range 737425 737695 ''d'' None = Some (Inr [(737425, 737694)])"
  by (simp add: divide_timeframe_range_def strptime_def valid_date_def min_ordinal_def
      max_ordinal_def date_add_def segment_loop.simps)

text \<open>
  C4 (degenerate range), evaluated at start = end = 2020-01-01: with granularity
  \<^verbatim>\<open>"d"\<close>, with \<^verbatim>\<open>"w"\<close> and with an explicit segment count the list returned is empty;
  only the fallback for any other granularity returns the single segment. On the
  empty list \<^verbatim>\<open>get_data\<close> fetches nothing and \<^verbatim>\<open>pd.concat\<close> raises ValueError.
\<close>

theorem degenerate_range_no_segment:
  "divide_timeframe_range 737425 737425 ''d'' None = Some (Inr []) \<and>
   divide_timeframe_range 737425 737425 ''w'' None = Some (Inr []) \<and>
   divide_timeframe_range 737425 737425 ''m'' (Some 1) = Some (Inr []) \<and>
   divide_timeframe_range 737425 737425 ''m'' None = Some (Inr [(737425, 737425)]) \<and>
   get_data interest_over_time keywords (737425, 737425) geo youtube ''d'' = Some (Inl ValueError)"
  by (simp add: divide_timeframe_range_def strptime_def valid_date_def min_ordinal_def
      max_ordinal_def date_add_def segment_loop.simps get_data_def bind_err_def
      adjust_scaling_def pd_concat_def)

text \<open>
  C5 (segment count), evaluated at 2020-01-01 to 2020-01-11 (10 days) with
  \<^verbatim>\<open>num_segments = 5\<close>: the step is 10 // 5 = 2 days, each segment covers three dates,
  and four segments are returned.
\<close>

theorem segment_count_not_met:
  "divide_timeframe_range 737425 737435 ''d'' (Some 5) =
     Some (Inr [(737425, 737427), (737428, 737430), (737431, 737433), (737434, 737435)])"
  by (simp add: divide_timeframe_range_def strptime_def valid_date_def min_ordinal_def
      max_ordinal_def date_add_def segment_loop.simps)

subsection \<open>Properties of the granularity inference\<close>

lemma iloc_0: "iloc xs 0 = (case xs of [] \<Rightarrow> Inl IndexError | x # _ \<Rightarrow> Inr x)"
  by (cases xs) (simp_all add: iloc_def)

lemma set_mode: "set (mode ds) = {x \<in> set ds. \<forall>y \<in> set ds. count_list ds y \<le> count_list ds x}"
  by (auto simp: mode_def)

lemma sorted_mode: "sorted (mode ds)"
  by (simp add: mode_def)

lemma sorted_hd_least:
  fixes m :: int
  assumes "sorted xs" "m \<in> set xs" "\<forall>x \<in> set xs. m \<le> x"
  shows "\<exists>rest. xs = m # rest"
proof (cases xs)
  case Nil
  with assms show ?thesis by simp
next
  case (Cons x rest)
  with assms have "x \<le> m" by auto
  moreover from Cons assms have "m \<le> x" by simp
  ultimately show ?thesis using Cons by simp
qed

lemma mode_most_common:
  assumes "most_common m ds"
  shows "\<exists>rest. mode ds = m # rest"
proof (rule sorted_hd_least)
  show "sorted (mode ds)" by (rule sorted_mode)
  show "m \<in> set (mode ds)"
    using assms by (auto simp: set_mode most_common_def)
  show "\<forall>x \<in> set (mode ds). m \<le> x"
  proof
    fix x assume "x \<in> set (mode ds)"
    then have x: "x \<in> set ds" and "\<forall>y \<in> set ds. count_list ds y \<le> count_list ds x"
      by (auto simp: set_mode)
    moreover have "m \<in> set ds" using assms by (simp add: most_common_def)
    ultimately have "count_list ds m \<le> count_list ds x" by blast
    moreover have "count_list ds x \<le> count_list ds m"
      using assms x by (simp add: most_common_def)
    ultimately have "count_list ds x = count_list ds m" by simp
    with assms x show "m \<le> x" by (simp add: most_common_def)
  qed
qed

lemma granularity_of_most_common:
  assumes "gaps_fit idx" "most_common m (gap_days idx)"
  shows "determine_overall_granularity_from_data idx =
           Inr (if m = 1 then ''daily'' else if m \<le> 7 then ''weekly'' else ''monthly'')"
proof -
  from mode_most_common [OF assms(2)] obtain rest where "mode (gap_days idx) = m # rest" ..
  then show ?thesis
    using assms(1)
    by (simp add: determine_overall_granularity_from_data_def date_diffs_def iloc_0 bind_err_def)
qed

lemma gaps_short: "length idx < 2 \<Longrightarrow> gaps_fit idx \<and> gap_days idx = []"
  by (cases idx) (simp_all add: gaps_fit_def gap_days_def)

lemma gap_days_uniform:
  assumes "uniform_gaps g idx"
  shows "gap_days idx = replicate (length idx - 1) g"
proof -
  have "map (\<lambda>(a, b). (b - a) div ns_per_day) (zip idx (tl idx))
      = map (\<lambda>_. g) (zip idx (tl idx))"
    using assms by (intro map_cong) (auto simp: uniform_gaps_def list_all_iff ns_per_day_def)
  also have "\<dots> = replicate (length (zip idx (tl idx))) g"
    by (simp add: map_replicate_const)
  finally show ?thesis by (simp add: gap_days_def)
qed

lemma gaps_fit_uniform:
  assumes "uniform_gaps g idx" "timedelta_fits (g * ns_per_day)"
  shows "gaps_fit idx"
  using assms by (auto simp: uniform_gaps_def gaps_fit_def list_all_iff)

lemma most_common_replicate: "0 < n \<Longrightarrow> most_common g (replicate n g)"
  by (auto simp: most_common_def)

lemma granularity_uniform:
  assumes "2 \<le> length idx" "uniform_gaps g idx" "timedelta_fits (g * ns_per_day)"
  shows "determine_overall_granularity_from_data idx =
           Inr (if g = 1 then ''daily'' else if g \<le> 7 then ''weekly'' else ''monthly'')"
proof -
  have "most_common g (gap_days idx)"
    using assms(1,2) by (simp add: gap_days_uniform most_common_replicate)
  with gaps_fit_uniform [OF assms(2,3)] show ?thesis by (rule granularity_of_most_common)
qed

text \<open>
  C8 as stated fails for timestamps further apart than a timedelta can hold. The
  two timestamps -9223372036854775000 and 9223372036854775000 (in 1677 and in 2262)
  are 213503 days apart, more than seven, but the difference is not below \<open>2 ^ 63\<close>
  nanoseconds: \<^verbatim>\<open>diff()\<close> raises OverflowError and no label is returned.
\<close>

theorem granularity_overflow_counterexample:
  "2 \<le> length [- 9223372036854775000, 9223372036854775000 :: int] \<and>
   gap_days [- 9223372036854775000, 9223372036854775000] = [213503] \<and>
   determine_overall_granularity_from_data [- 9223372036854775000, 9223372036854775000]
     = Inl OverflowError"
  by (simp add: determine_overall_granularity_from_data_def date_diffs_def gaps_fit_def
      gap_days_def timedelta_fits_def ns_per_day_def bind_err_def)

text \<open>
  C8, as amended: for an index of at least two timestamps whose consecutive gaps each
  fit a timedelta, and whose most frequent gap in days is \<open>m\<close> (the smallest such gap
  when several are equally frequent), the label is \<^verbatim>\<open>"daily"\<close> if \<open>m = 1\<close>, \<^verbatim>\<open>"weekly"\<close> if
  \<open>m \<le> 7\<close> and \<open>m \<noteq> 1\<close>, and \<^verbatim>\<open>"monthly"\<close> otherwise. In particular uniform gaps of 1,
  7 and 30 days give \<^verbatim>\<open>"daily"\<close>, \<^verbatim>\<open>"weekly"\<close> and \<^verbatim>\<open>"monthly"\<close>.
\<close>

theorem granularity_classification:
  "(2 \<le> length idx \<and> gaps_fit idx \<and> most_common m (gap_days idx) \<longrightarrow>
      determine_overall_granularity_from_data idx =
        Inr (if m = 1 then ''daily'' else if m \<le> 7 then ''weekly'' else ''monthly'')) \<and>
   (2 \<le> length idx \<and> uniform_gaps 1 idx \<longrightarrow>
      determine_overall_granularity_from_data idx = Inr ''daily'') \<and>
   (2 \<le> length idx \<and> uniform_gaps 7 idx \<longrightarrow>
      determine_overall_granularity_from_data idx = Inr ''weekly'') \<and>
   (2 \<le> length idx \<and> uniform_gaps 30 idx \<longrightarrow>
      determine_overall_granularity_from_data idx = Inr ''monthly'')"
proof -
  have fits: "timedelta_fits (1 * ns_per_day)" "timedelta_fits (7 * ns_per_day)"
    "timedelta_fits (30 * ns_per_day)"
    by (simp_all add: timedelta_fits_def ns_per_day_def)
  show ?thesis
    using granularity_of_most_common [of idx m] granularity_uniform [of idx 1, OF _ _ fits(1)]
      granularity_uniform [of idx 7, OF _ _ fits(2)]
      granularity_uniform [of idx 30, OF _ _ fits(3)]
    by simp
qed

theorem granularity_classification_witness:
  "(2 \<le> length [0, 86400000000000, 2 * 86400000000000, 9 * 86400000000000 :: int] \<and>
    gaps_fit [0, 86400000000000, 2 * 86400000000000, 9 * 86400000000000] \<and>
    most_common 1 (gap_days [0, 86400000000000, 2 * 86400000000000, 9 * 86400000000000]) \<and>
    determine_overall_granularity_from_data
      [0, 86400000000000, 2 * 86400000000000, 9 * 86400000000000] = Inr ''daily'') \<and>
   (uniform_gaps 1 [0, 86400000000000, 2 * 86400000000000] \<and>
    determine_overall_granularity_from_data [0, 86400000000000, 2 * 86400000000000] = Inr ''daily'') \<and>
   (uniform_gaps 7 [0, 7 * 86400000000000, 14 * 86400000000000] \<and>
    determine_overall_granularity_from_data [0, 7 * 86400000000000, 14 * 86400000000000] = Inr ''weekly'') \<and>
   (uniform_gaps 30 [0, 30 * 86400000000000, 60 * 86400000000000] \<and>
    determine_overall_granularity_from_data [0, 30 * 86400000000000, 60 * 86400000000000] = Inr ''monthly'')"
proof -
  have a: "gaps_fit [0, 86400000000000, 2 * 86400000000000, 9 * 86400000000000]"
    "most_common 1 (gap_days [0, 86400000000000, 2 * 86400000000000, 9 * 86400000000000])"
    by (simp_all add: most_common_def gap_days_def gaps_fit_def timedelta_fits_def ns_per_day_def)
  have b: "uniform_gaps 1 [0, 86400000000000, 2 * 86400000000000]"
    "uniform_gaps 7 [0, 7 * 86400000000000, 14 * 86400000000000]"
    "uniform_gaps 30 [0, 30 * 86400000000000, 60 * 86400000000000]"
    by (simp_all add: uniform_gaps_def ns_per_day_def)
  show ?thesis
    using a b
      granularity_classification [of "[0, 86400000000000, 2 * 86400000000000, 9 * 86400000000000]" 1]
      granularity_classification [of "[0, 86400000000000, 2 * 86400000000000]"]
      granularity_classification [of "[0, 7 * 86400000000000, 14 * 86400000000000]"]
      granularity_classification [of "[0, 30 * 86400000000000, 60 * 86400000000000]"]
    by simp
qed

text \<open>
  C9: for an index of fewer than two timestamps there is no gap, the mode is empty
  and \<^verbatim>\<open>.iloc[0]\<close> raises IndexError: no label is returned.
\<close>

theorem granularity_needs_two_timestamps:
  "length idx < 2 \<Longrightarrow> determine_overall_granularity_from_data idx = Inl IndexError"
  by (simp add: determine_overall_granularity_from_data_def date_diffs_def gaps_short mode_def
      iloc_def bind_err_def)

theorem granularity_needs_two_timestamps_witness:
  "length [1577836800000000000 :: int] < 2 \<and>
   determine_overall_granularity_from_data [1577836800000000000] = Inl IndexError \<and>
   determine_overall_granularity_from_data [] = Inl IndexError"
  using granularity_needs_two_timestamps [of "[1577836800000000000]"]
    granularity_needs_two_timestamps [of "[]"]
  by simp

subsection \<open>Properties of DataFrame operations\<close>

lemma bind_err_simps [simp]: "bind_err (Inl e) f = Inl e" "bind_err (Inr x) f = f x"
  by (simp_all add: bind_err_def)

lemma index_setitem [simp]: "index (setitem df k c) = index df"
  by (simp add: setitem_def)

lemma map_of_replace_same:
  "map_of (map (\<lambda>(k', old). if k' = k then (k', c) else (k', old)) xs) k =
     (if k \<in> fst ` set xs then Some c else None)"
  by (induction xs) auto

lemma map_of_replace_other:
  "x \<noteq> k \<Longrightarrow>
   map_of (map (\<lambda>(k', old). if k' = k then (k', c) else (k', old)) xs) x = map_of xs x"
  by (induction xs) auto

lemma map_of_setitem: "map_of (columns (setitem df k c)) = (map_of (columns df))(k \<mapsto> c)"
proof (cases "k \<in> set (column_names df)")
  case True
  then show ?thesis
    by (auto simp: setitem_def column_names_def map_of_replace_same map_of_replace_other fun_eq_iff)
next
  case False
  then have "map_of (columns df) k = None"
    by (simp add: column_names_def map_of_eq_None_iff)
  with False show ?thesis
    by (auto simp: setitem_def fun_eq_iff map_add_def split: option.splits)
qed

lemma names_replace:
  "map fst (map (\<lambda>(k', old). if k' = k then (k', c) else (k', old)) xs) = map fst xs"
  by (induction xs) auto

lemma column_names_setitem:
  "column_names (setitem df k c) =
     (if k \<in> set (column_names df) then column_names df else column_names df @ [k])"
  by (simp add: setitem_def column_names_def names_replace del: map_map)

lemma wf_setitem:
  assumes "wf_frame df" "length c = length (index df)"
  shows "wf_frame (setitem df k c)"
  using assms by (auto simp: wf_frame_def setitem_def list_all_iff split: if_splits)

lemma in_names_iff: "k \<in> set (column_names df) \<longleftrightarrow> map_of (columns df) k \<noteq> None"
  by (simp add: column_names_def map_of_eq_None_iff)

lemma getitem_Some: "map_of (columns df) k = Some c \<Longrightarrow> getitem df k = Inr c"
  by (simp add: getitem_def)

lemma wf_column_length:
  "wf_frame df \<Longrightarrow> map_of (columns df) k = Some c \<Longrightarrow> length c = length (index df)"
  by (auto simp: wf_frame_def list_all_iff dest!: map_of_SomeD)

lemma index_fill_missing [simp]: "index (fill_missing kws df) = index df"
  by (induction kws arbitrary: df) auto

lemma wf_fill_missing: "wf_frame df \<Longrightarrow> wf_frame (fill_missing kws df)"
  by (induction kws arbitrary: df) (auto simp: wf_setitem)

lemma map_of_fill_missing:
  "map_of (columns (fill_missing kws df)) k =
     (if k \<in> set (column_names df) then map_of (columns df) k
      else if k \<in> set kws then Some (replicate (length (index df)) 0) else None)"
proof (induction kws arbitrary: df)
  case Nil
  then show ?case by (simp add: in_names_iff)
next
  case (Cons a kws)
  show ?case
    by (auto simp: Cons.IH map_of_setitem column_names_setitem in_names_iff)
qed

lemma names_fill_missing:
  "set (column_names (fill_missing kws df)) = set (column_names df) \<union> set kws"
  by (auto simp: in_names_iff map_of_fill_missing split: if_splits)

lemma iloc_first: "c \<noteq> [] \<Longrightarrow> iloc c 0 = Inr (hd c)"
  by (cases c) (simp_all add: iloc_def)

lemma iloc_last: "c \<noteq> [] \<Longrightarrow> iloc c (- 1) = Inr (last c)"
  by (cases c rule: rev_cases) (simp_all add: iloc_def nth_append)

subsection \<open>The rescale loops\<close>

lemma df_empty_iff:
  assumes "wf_frame df" "map_of (columns df) k = Some c"
  shows "df_empty df \<longleftrightarrow> c = []"
proof -
  have "columns df \<noteq> []" using assms(2) by auto
  moreover have "length c = length (index df)" using assms by (rule wf_column_length)
  ultimately show ?thesis by (auto simp: df_empty_def)
qed

lemma scale_factor_value:
  assumes "wf_frame cur" "wf_frame prev"
    and "map_of (columns cur) k = Some h" "map_of (columns prev) k = Some c"
  shows "scale_factor cur prev k = Inr (scale_value h c)"
proof -
  have e1: "df_empty cur \<longleftrightarrow> h = []" using assms(1,3) by (rule df_empty_iff)
  have e2: "df_empty prev \<longleftrightarrow> c = []" using assms(2,4) by (rule df_empty_iff)
  show ?thesis
    using assms(3,4)
    by (simp add: scale_factor_def scale_value_def e1 e2 getitem_Some iloc_first iloc_last)
qed

lemma scale_value_idem: "scale_value h (map (\<lambda>v. v * scale_value h c) c) = 1"
proof (cases "c = [] \<or> last c = 0")
  case True
  then show ?thesis by (auto simp: scale_value_def)
next
  case False
  define a where "a = (if h = [] then 0 else hd h)"
  define c' where "c' = map (\<lambda>v. v * scale_value h c) c"
  have f: "scale_value h c = a / last c"
    using False by (simp add: scale_value_def a_def)
  have ne: "c' \<noteq> []" using False by (simp add: c'_def)
  have l: "last c' = a" using False by (simp add: c'_def f last_map)
  have "scale_value h c' = 1"
    using ne l by (simp add: scale_value_def a_def [symmetric])
  then show ?thesis by (simp add: c'_def)
qed

lemma imul_value:
  "map_of (columns p) k = Some c \<Longrightarrow> imul p k f = Inr (setitem p k (map (\<lambda>v. v * f) c))"
  by (simp add: imul_def getitem_Some)

lemma rescaled_on_refl: "wf_frame prev \<Longrightarrow> rescaled_on {} cur prev prev"
  by (simp add: rescaled_on_def)

lemma rescale_keyword_step:
  assumes i: "0 < i" "i < length tds" and cur: "tds ! i = cur"
    and wf: "wf_frame cur"
    and cols: "map_of (columns cur) k = Some h" "map_of (columns prev) k = Some c"
    and inv: "rescaled_on S cur prev (tds ! (i - 1))"
  shows "\<exists>p. rescale_keyword tds i k = Inr (tds[i - 1 := p]) \<and> rescaled_on (insert k S) cur prev p"
proof -
  define p0 where "p0 = tds ! (i - 1)"
  define c0 where "c0 = (if k \<in> S then map (\<lambda>v. v * scale_value h c) c else c)"
  have wf0: "wf_frame p0" and idx0: "index p0 = index prev"
    and names0: "column_names p0 = column_names prev"
    using inv by (simp_all add: rescaled_on_def p0_def)
  have col0: "map_of (columns p0) k = Some c0"
    using inv cols by (auto simp: rescaled_on_def p0_def c0_def)
  define f where "f = scale_value h c0"
  have sf: "scale_factor cur p0 k = Inr f"
    unfolding f_def using wf wf0 cols(1) col0 by (rule scale_factor_value)
  define p where "p = setitem p0 k (map (\<lambda>v. v * f) c0)"
  have "rescale_keyword tds i k =
      bind_err (scale_factor cur p0 k) (\<lambda>s.
      bind_err (imul p0 k s) (\<lambda>df. Inr (tds[i - 1 := df])))"
    unfolding rescale_keyword_def cur p0_def by (rule refl)
  then have step: "rescale_keyword tds i k = Inr (tds[i - 1 := p])"
    using sf imul_value [OF col0, of f] by (simp add: p_def)
  have newcol: "map (\<lambda>v. v * f) c0 = map (\<lambda>v. v * scale_value h c) c"
  proof (cases "k \<in> S")
    case True
    then have "f = 1" by (simp add: f_def c0_def scale_value_idem)
    with True show ?thesis by (simp add: c0_def)
  next
    case False
    then show ?thesis by (simp add: f_def c0_def)
  qed
  have kin: "k \<in> set (column_names p0)"
    using col0 by (simp add: in_names_iff)
  have "wf_frame p"
    unfolding p_def using wf0
  proof (rule wf_setitem)
    show "length (map (\<lambda>v. v * f) c0) = length (index p0)"
      using wf_column_length [OF wf0 col0] by simp
  qed
  moreover have "index p = index prev" by (simp add: p_def idx0)
  moreover have "column_names p = column_names prev"
    using kin by (simp add: p_def column_names_setitem names0)
  moreover have "map_of (columns p) k' = map_of (columns prev) k'" if "k' \<notin> insert k S" for k'
    using that inv by (simp add: p_def map_of_setitem rescaled_on_def p0_def)
  moreover have "map_of (columns p) k' = Some (map (\<lambda>v. v * scale_value h' c') c')"
    if "k' \<in> insert k S" "map_of (columns cur) k' = Some h'" "map_of (columns prev) k' = Some c'"
    for k' h' c'
  proof (cases "k' = k")
    case True
    with that cols have "h' = h" "c' = c" by simp_all
    with True show ?thesis by (simp add: p_def map_of_setitem newcol)
  next
    case False
    with that have "k' \<in> S" by simp
    with that inv have "map_of (columns p0) k' = Some (map (\<lambda>v. v * scale_value h' c') c')"
      by (simp add: rescaled_on_def p0_def)
    with False show ?thesis by (simp add: p_def map_of_setitem)
  qed
  ultimately have "rescaled_on (insert k S) cur prev p"
    unfolding rescaled_on_def by blast
  with step show ?thesis by blast
qed

lemma rescale_keywords_inv:
  assumes "0 < i" "i < length tds" "tds ! i = cur" "wf_frame cur"
    and "\<forall>k \<in> set kws. k \<in> set (column_names cur) \<and> k \<in> set (column_names prev)"
    and "rescaled_on S cur prev (tds ! (i - 1))"
  shows "\<exists>p. rescale_keywords tds i kws = Inr (tds[i - 1 := p]) \<and>
             rescaled_on (S \<union> set kws) cur prev p"
  using assms
proof (induction kws arbitrary: tds S)
  case Nil
  then show ?case by (auto intro: exI [of _ "tds ! (i - 1)"])
next
  case (Cons k kws)
  from Cons.prems(5) obtain h c
    where cols: "map_of (columns cur) k = Some h" "map_of (columns prev) k = Some c"
    by (auto simp: in_names_iff)
  from rescale_keyword_step [OF Cons.prems(1,2,3,4) cols Cons.prems(6)]
  obtain p1 where p1: "rescale_keyword tds i k = Inr (tds[i - 1 := p1])"
    and inv1: "rescaled_on (insert k S) cur prev p1"
    by blast
  let ?tds1 = "tds[i - 1 := p1]"
  have a: "i < length ?tds1" using Cons.prems(2) by simp
  have b: "?tds1 ! i = cur" using Cons.prems(1,3) by simp
  have c: "\<forall>k \<in> set kws. k \<in> set (column_names cur) \<and> k \<in> set (column_names prev)"
    using Cons.prems(5) by simp
  have d: "rescaled_on (insert k S) cur prev (?tds1 ! (i - 1))"
    using inv1 Cons.prems(1,2) by simp
  from Cons.IH [OF Cons.prems(1) a b Cons.prems(4) c d]
  obtain p where p: "rescale_keywords ?tds1 i kws = Inr (?tds1[i - 1 := p])"
    and inv: "rescaled_on (insert k S \<union> set kws) cur prev p"
    by blast
  have "rescale_keywords tds i (k # kws) = Inr (tds[i - 1 := p])"
    using p1 p by simp
  moreover have "rescaled_on (S \<union> set (k # kws)) cur prev p"
    using inv by simp
  ultimately show ?case by blast
qed

lemma rescale_segments_append:
  "rescale_segments tds kws (xs @ ys) =
     bind_err (rescale_segments tds kws xs) (\<lambda>t. rescale_segments t kws ys)"
  by (induction xs arbitrary: tds) (auto simp: bind_err_def split: sum.splits)

lemma rescale_segments_single:
  "rescale_segments tds kws [i] = rescale_keywords tds i kws"
  by (simp add: bind_err_def split: sum.splits)

lemma adjust_scaling_inv:
  assumes good: "\<forall>df \<in> set tds0. wf_frame df \<and> set kws \<subseteq> set (column_names df)"
    and m: "m \<le> length tds0"
  shows "\<exists>R. adjust_scaling tds0 kws m = Inr R \<and> length R = length tds0 \<and>
           (\<forall>j. Suc j < m \<longrightarrow> rescaled_on (set kws) (tds0 ! Suc j) (tds0 ! j) (R ! j)) \<and>
           (\<forall>j. m \<le> Suc j \<longrightarrow> j < length tds0 \<longrightarrow> R ! j = tds0 ! j)"
  using m
proof (induction m)
  case 0
  then show ?case by (simp add: adjust_scaling_def)
next
  case (Suc m)
  show ?case
  proof (cases "m = 0")
    case True
    then show ?thesis by (simp add: adjust_scaling_def)
  next
    case False
    then have mpos: "0 < m" by simp
    from Suc obtain R where R: "adjust_scaling tds0 kws m = Inr R"
      and len: "length R = length tds0"
      and before: "\<forall>j. Suc j < m \<longrightarrow> rescaled_on (set kws) (tds0 ! Suc j) (tds0 ! j) (R ! j)"
      and rest: "\<forall>j. m \<le> Suc j \<longrightarrow> j < length tds0 \<longrightarrow> R ! j = tds0 ! j"
      by auto
    have mlt: "m < length tds0" using Suc.prems by simp
    have cur: "R ! m = tds0 ! m" using rest mlt by simp
    have prev: "R ! (m - 1) = tds0 ! (m - 1)" using rest mlt mpos by simp
    have wfc: "wf_frame (tds0 ! m)" and wfp: "wf_frame (tds0 ! (m - 1))"
      using good mlt by simp_all
    have cols: "\<forall>k \<in> set kws. k \<in> set (column_names (tds0 ! m)) \<and>
        k \<in> set (column_names (tds0 ! (m - 1)))"
    proof
      fix k assume k: "k \<in> set kws"
      have "tds0 ! m \<in> set tds0" "tds0 ! (m - 1) \<in> set tds0" using mlt by simp_all
      with good k show "k \<in> set (column_names (tds0 ! m)) \<and>
        k \<in> set (column_names (tds0 ! (m - 1)))" by blast
    qed
    have inv0: "rescaled_on {} (tds0 ! m) (tds0 ! (m - 1)) (R ! (m - 1))"
      using wfp prev by (simp add: rescaled_on_refl)
    have mltR: "m < length R" using mlt len by simp
    from rescale_keywords_inv [OF mpos mltR cur wfc cols inv0]
    obtain p where p: "rescale_keywords R m kws = Inr (R[m - 1 := p])"
      and pinv: "rescaled_on (set kws) (tds0 ! m) (tds0 ! (m - 1)) p"
      by auto
    have upt: "[1..<Suc m] = [1..<m] @ [m]" using mpos by simp
    have "adjust_scaling tds0 kws (Suc m) = Inr (R[m - 1 := p])"
      using R p unfolding adjust_scaling_def upt rescale_segments_append
      by (simp add: rescale_segments_single)
    moreover have "length (R[m - 1 := p]) = length tds0" using len by simp
    moreover have "rescaled_on (set kws) (tds0 ! Suc j) (tds0 ! j) (R[m - 1 := p] ! j)"
      if "Suc j < Suc m" for j
    proof (cases "Suc j = m")
      case True
      then have "j = m - 1" by simp
      with True pinv mltR show ?thesis by simp
    next
      case False
      with that have "Suc j < m" by simp
      with before have "rescaled_on (set kws) (tds0 ! Suc j) (tds0 ! j) (R ! j)" by simp
      moreover have "j \<noteq> m - 1" using False mpos by auto
      ultimately show ?thesis by simp
    qed
    moreover have "R[m - 1 := p] ! j = tds0 ! j" if "Suc m \<le> Suc j" "j < length tds0" for j
    proof -
      have "j \<noteq> m - 1" using that mpos by auto
      moreover have "R ! j = tds0 ! j" using rest that by simp
      ultimately show ?thesis by simp
    qed
    ultimately show ?thesis by blast
  qed
qed

lemma length_concat_same:
  assumes "\<forall>x \<in> set xs. length (f x) = length (g x)"
  shows "length (concat (map f xs)) = length (concat (map g xs))"
  using assms by (induction xs) auto

lemma segment_rows_concat:
  assumes "j < length dfs" "\<forall>df \<in> set dfs. length (f df) = length (index df)"
  shows "segment_rows dfs j (concat (map f dfs)) = f (dfs ! j)"
proof -
  have split: "dfs = take j dfs @ dfs ! j # drop (Suc j) dfs"
    using assms(1) by (rule id_take_nth_drop)
  have "\<forall>df \<in> set (take j dfs). length (f df) = length (index df)"
    using assms(2) by (auto dest: in_set_takeD)
  then have l1: "length (concat (map index (take j dfs))) = length (concat (map f (take j dfs)))"
    by (intro length_concat_same) simp
  have l2: "length (index (dfs ! j)) = length (f (dfs ! j))"
    using assms by simp
  have "concat (map f dfs) =
      concat (map f (take j dfs)) @ f (dfs ! j) @ concat (map f (drop (Suc j) dfs))"
    by (subst split) simp
  then show ?thesis
    unfolding segment_rows_def l1 l2 by simp
qed

lemma getitem_Inr_iff: "getitem df k = Inr c \<longleftrightarrow> map_of (columns df) k = Some c"
  by (simp add: getitem_def split: option.splits)

lemma map_of_keyed:
  "map_of (map (\<lambda>k. (k, f k)) ks) k = (if k \<in> set ks then Some (f k) else None)"
  by (induction ks) auto

lemma pd_concat_column:
  assumes wf: "\<forall>df \<in> set tds. wf_frame df" and j: "j < length tds"
    and c: "map_of (columns (tds ! j)) k = Some c"
  shows "\<exists>combined col. pd_concat tds = Inr combined \<and>
           index combined = concat (map index tds) \<and>
           getitem combined k = Inr col \<and> segment_rows tds j col = map Some c"
proof -
  define cell where "cell = (\<lambda>df :: real dataframe. case map_of (columns df) k of
      Some c \<Rightarrow> map Some c | None \<Rightarrow> replicate (length (index df)) None)"
  have ne: "tds \<noteq> []" using j by auto
  have "k \<in> set (column_names (tds ! j))" using c by (simp add: in_names_iff)
  then have kin: "k \<in> set (rev (remdups (rev (concat (map column_names tds)))))"
    using j by auto
  have len: "\<forall>df \<in> set tds. length (cell df) = length (index df)"
    using wf by (auto simp: cell_def wf_column_length split: option.splits)
  have rows: "segment_rows tds j (concat (map cell tds)) = map Some c"
    using segment_rows_concat [OF j len] c by (simp add: cell_def)
  obtain combined where comb: "pd_concat tds = Inr combined"
    using ne by (simp add: pd_concat_def)
  then have "index combined = concat (map index tds)"
    using ne by (auto simp: pd_concat_def)
  moreover have "getitem combined k = Inr (concat (map cell tds))"
    using comb ne kin
    by (auto simp: pd_concat_def getitem_Inr_iff map_of_keyed cell_def)
  ultimately show ?thesis using comb rows by blast
qed

lemma iloc_first_iff: "iloc c 0 = Inr x \<longleftrightarrow> c \<noteq> [] \<and> hd c = x"
  by (cases c) (simp_all add: iloc_def)

lemma iloc_last_iff: "iloc c (- 1) = Inr x \<longleftrightarrow> c \<noteq> [] \<and> last c = x"
  by (cases c rule: rev_cases) (simp_all add: iloc_def nth_append)

lemma bind_err_Inr_iff: "bind_err m f = Inr y \<longleftrightarrow> (\<exists>x. m = Inr x \<and> f x = Inr y)"
  by (cases m) simp_all

lemma getitem_fill_missing_other:
  "k \<notin> set kws \<Longrightarrow> getitem (fill_missing kws df) k = getitem df k"
  by (simp add: getitem_def map_of_fill_missing in_names_iff)

lemma segment_rows_same_index:
  assumes "map index a = map index b" "j < length a"
  shows "segment_rows a j col = segment_rows b j col"
proof -
  have len: "length a = length b" using assms(1) by (rule map_eq_imp_length_eq)
  have t: "map index (take j a) = map index (take j b)"
    using assms(1) by (simp add: take_map [symmetric])
  have "index (a ! j) = map index a ! j" using assms(2) by simp
  also have "\<dots> = map index b ! j" using assms(1) by simp
  also have "\<dots> = index (b ! j)" using assms(2) len by simp
  finally show ?thesis by (simp add: segment_rows_def t)
qed

lemma normalize_run:
  assumes wf: "\<forall>df \<in> set fetched. wf_frame df"
  shows "\<exists>R. adjust_scaling (map (fill_missing kws) fetched) kws (length fetched) = Inr R \<and>
           length R = length fetched \<and> (\<forall>df \<in> set R. wf_frame df) \<and>
           map index R = map index fetched \<and>
           (\<forall>j. Suc j < length fetched \<longrightarrow>
              rescaled_on (set kws) (fill_missing kws (fetched ! Suc j))
                (fill_missing kws (fetched ! j)) (R ! j)) \<and>
           (\<forall>j. Suc j = length fetched \<longrightarrow> R ! j = fill_missing kws (fetched ! j))"
proof -
  let ?tds0 = "map (fill_missing kws) fetched"
  have good: "\<forall>df \<in> set ?tds0. wf_frame df \<and> set kws \<subseteq> set (column_names df)"
    using wf by (auto simp: wf_fill_missing names_fill_missing)
  from adjust_scaling_inv [OF good, of "length ?tds0"]
  obtain R where R: "adjust_scaling ?tds0 kws (length fetched) = Inr R"
    and len: "length R = length fetched"
    and sc: "\<forall>j. Suc j < length fetched \<longrightarrow>
        rescaled_on (set kws) (?tds0 ! Suc j) (?tds0 ! j) (R ! j)"
    and rest: "\<forall>j. length fetched \<le> Suc j \<longrightarrow> j < length fetched \<longrightarrow> R ! j = ?tds0 ! j"
    by auto
  have sc': "rescaled_on (set kws) (fill_missing kws (fetched ! Suc j))
      (fill_missing kws (fetched ! j)) (R ! j)" if "Suc j < length fetched" for j
    using sc that by simp
  have last': "R ! j = fill_missing kws (fetched ! j)" if "Suc j = length fetched" for j
    using rest that by simp
  have each: "wf_frame (R ! j) \<and> index (R ! j) = index (fetched ! j)" if "j < length fetched" for j
  proof (cases "Suc j < length fetched")
    case True
    then show ?thesis using sc' [OF True] by (simp add: rescaled_on_def)
  next
    case False
    with that have "Suc j = length fetched" by simp
    then show ?thesis using last' wf that by (simp add: wf_fill_missing)
  qed
  have "\<forall>df \<in> set R. wf_frame df"
    using each len by (auto simp: in_set_conv_nth)
  moreover have "map index R = map index fetched"
    using each len by (auto intro: nth_equalityI)
  ultimately show ?thesis using R len sc' last' by blast
qed

text \<open>The defining equations used to evaluate the passes on concrete frames.\<close>

lemmas frame_eval = adjust_scaling_def rescale_keyword_def scale_factor_def imul_def getitem_def
  setitem_def iloc_def df_empty_def column_names_def pd_concat_def segment_rows_def wf_frame_def
  upt_conv_Cons

subsection \<open>The stages of \<^verbatim>\<open>get_data\<close>\<close>

text \<open>
  A call of \<open>get_data\<close> that returns a combined frame went through the stages that the
  theorems below are stated for: the segmenter returned a list of segments, the
  source returned one frame per segment, the rescale loops ran on the zero-filled
  frames and \<^verbatim>\<open>pd.concat\<close> combined their result.
\<close>

lemma fetch_segments_result:
  assumes "fetch_segments iot kws geo yt segs acc = Inr tds"
  shows "\<exists>fetched. length fetched = length segs \<and>
           (\<forall>j < length segs. iot kws (segs ! j) geo (if yt then ''29'' else ''0'')
              = Inr (fetched ! j)) \<and>
           tds = acc @ map (fill_missing kws) fetched"
  using assms
proof (induction segs arbitrary: acc)
  case Nil
  then show ?case by simp
next
  case (Cons s segs)
  from Cons.prems obtain df where df: "iot kws s geo (if yt then ''29'' else ''0'') = Inr df"
    and rest: "fetch_segments iot kws geo yt segs (acc @ [fill_missing kws df]) = Inr tds"
    by (auto simp: bind_err_Inr_iff)
  from Cons.IH [OF rest] obtain fetched where f: "length fetched = length segs"
    "\<forall>j < length segs. iot kws (segs ! j) geo (if yt then ''29'' else ''0'') = Inr (fetched ! j)"
    "tds = (acc @ [fill_missing kws df]) @ map (fill_missing kws) fetched"
    by blast
  have "\<forall>j < length (s # segs). iot kws ((s # segs) ! j) geo (if yt then ''29'' else ''0'')
      = Inr ((df # fetched) ! j)"
    using df f(2) by (auto simp: nth_Cons split: nat.splits)
  moreover have "length (df # fetched) = length (s # segs)" using f(1) by simp
  moreover have "tds = acc @ map (fill_missing kws) (df # fetched)" using f(3) by simp
  ultimately show ?case by blast
qed

lemma get_data_stages:
  assumes "get_data iot kws tr geo yt g = Some (Inr combined)"
  shows "\<exists>segments fetched rescaled.
           divide_timeframe_range (fst tr) (snd tr) g None = Some (Inr segments) \<and>
           length fetched = length segments \<and>
           (\<forall>j < length segments. iot kws (segments ! j) geo (if yt then ''29'' else ''0'')
              = Inr (fetched ! j)) \<and>
           adjust_scaling (map (fill_missing kws) fetched) kws (length fetched) = Inr rescaled \<and>
           pd_concat rescaled = Inr combined \<and>
           (\<exists>label. determine_overall_granularity_from_data (index combined) = Inr label)"
proof -
  from assms obtain segments tds rescaled label
    where s: "divide_timeframe_range (fst tr) (snd tr) g None = Some (Inr segments)"
      and f: "fetch_segments iot kws geo yt segments [] = Inr tds"
      and r: "adjust_scaling tds kws (length segments) = Inr rescaled"
      and c: "pd_concat rescaled = Inr combined"
      and l: "determine_overall_granularity_from_data (index combined) = Inr label"
    by (auto simp: get_data_def bind_err_Inr_iff split: option.splits)
  from fetch_segments_result [OF f] obtain fetched where
    "length fetched = length segments"
    "\<forall>j < length segments. iot kws (segments ! j) geo (if yt then ''29'' else ''0'')
       = Inr (fetched ! j)"
    "tds = map (fill_missing kws) fetched"
    by auto
  with s r c l show ?thesis by auto
qed

subsection \<open>Properties of the fetch and rescale passes\<close>

text \<open>
  In the theorems below \<open>fetched\<close> is the list of frames that the source returned, one
  per segment, so that \<open>map (fill_missing keywords) fetched\<close> is \<^verbatim>\<open>trends_data\<close> when the
  rescale loops start.
\<close>

text \<open>
  The zero-fill on the stages: if a requested keyword is absent from the frame fetched
  for segment \<open>j\<close>, the rescale loops and the concatenation succeed, and in the
  combined frame the keyword's column is 0 at every row of segment \<open>j\<close>.
\<close>

lemma zero_fill_stage:
  assumes "\<forall>df \<in> set fetched. wf_frame df" "j < length fetched"
    and "keyword \<in> set keywords" "keyword \<notin> set (column_names (fetched ! j))"
  shows "\<exists>rescaled combined col.
           adjust_scaling (map (fill_missing keywords) fetched) keywords (length fetched)
             = Inr rescaled \<and>
           pd_concat rescaled = Inr combined \<and>
           getitem combined keyword = Inr col \<and>
           segment_rows fetched j col = replicate (length (index (fetched ! j))) (Some 0)"
proof -
  from normalize_run [OF assms(1), of "keywords"]
  obtain R where R: "adjust_scaling (map (fill_missing keywords) fetched) keywords
        (length fetched) = Inr R"
    and len: "length R = length fetched" and wfR: "\<forall>df \<in> set R. wf_frame df"
    and idx: "map index R = map index fetched"
    and sc: "\<forall>j. Suc j < length fetched \<longrightarrow>
        rescaled_on (set keywords) (fill_missing keywords (fetched ! Suc j))
          (fill_missing keywords (fetched ! j)) (R ! j)"
    and lst: "\<forall>j. Suc j = length fetched \<longrightarrow> R ! j = fill_missing keywords (fetched ! j)"
    by blast
  let ?z = "replicate (length (index (fetched ! j))) (0::real)"
  have z: "map_of (columns (fill_missing keywords (fetched ! j))) keyword = Some ?z"
    using assms(3,4) by (simp add: map_of_fill_missing)
  have col: "map_of (columns (R ! j)) keyword = Some ?z"
  proof (cases "Suc j < length fetched")
    case True
    have "keyword \<in> set (column_names (fill_missing keywords (fetched ! Suc j)))"
      using assms(3) by (simp add: names_fill_missing)
    then obtain h where h: "map_of (columns (fill_missing keywords (fetched ! Suc j))) keyword
        = Some h"
      by (auto simp: in_names_iff)
    from sc True assms(3) h z
    have "map_of (columns (R ! j)) keyword = Some (map (\<lambda>v. v * scale_value h ?z) ?z)"
      by (simp add: rescaled_on_def)
    then show ?thesis by simp
  next
    case False
    with assms(2) have "Suc j = length fetched" by simp
    with lst z show ?thesis by simp
  qed
  have jR: "j < length R" using assms(2) len by simp
  from pd_concat_column [OF wfR jR col]
  obtain combined c where "pd_concat R = Inr combined" "getitem combined keyword = Inr c"
    "segment_rows R j c = map Some ?z"
    by blast
  moreover have "segment_rows fetched j c = segment_rows R j c"
    using idx jR by (intro segment_rows_same_index [symmetric])
  ultimately show ?thesis using R by auto
qed

text \<open>
  C7: when \<open>get_data\<close> returns a combined frame from a source whose frames are well
  formed, then for every segment and every requested keyword that is absent from the
  frame the source returned for that segment, the combined frame has the keyword's
  column, and it is 0 at every row of that segment.
\<close>

theorem zero_fill_survives:
  assumes run: "get_data interest_over_time keywords timeframe_range geo youtube granularity
      = Some (Inr combined)"
    and source: "\<And>time_range segment_data.
      interest_over_time keywords time_range geo (if youtube then ''29'' else ''0'')
        = Inr segment_data \<Longrightarrow> wf_frame segment_data"
  shows "\<exists>segments fetched.
     divide_timeframe_range (fst timeframe_range) (snd timeframe_range) granularity None
       = Some (Inr segments) \<and>
     length fetched = length segments \<and>
     (\<forall>j < length segments.
        interest_over_time keywords (segments ! j) geo (if youtube then ''29'' else ''0'')
          = Inr (fetched ! j)) \<and>
     (\<forall>j < length segments. \<forall>keyword \<in> set keywords.
        keyword \<notin> set (column_names (fetched ! j)) \<longrightarrow>
        (\<exists>col. getitem combined keyword = Inr col \<and>
           segment_rows fetched j col = replicate (length (index (fetched ! j))) (Some 0)))"
proof -
  from get_data_stages [OF run] obtain segments fetched rescaled
    where segs: "divide_timeframe_range (fst timeframe_range) (snd timeframe_range) granularity
        None = Some (Inr segments)"
      and len: "length fetched = length segments"
      and each: "\<forall>j < length segments.
        interest_over_time keywords (segments ! j) geo (if youtube then ''29'' else ''0'')
          = Inr (fetched ! j)"
      and resc: "adjust_scaling (map (fill_missing keywords) fetched) keywords (length fetched)
        = Inr rescaled"
      and comb: "pd_concat rescaled = Inr combined"
    by blast
  have wf: "\<forall>df \<in> set fetched. wf_frame df"
  proof
    fix df assume "df \<in> set fetched"
    then obtain j where "j < length fetched" "df = fetched ! j"
      by (auto simp: in_set_conv_nth)
    with each len show "wf_frame df" by (auto intro: source)
  qed
  have "\<exists>col. getitem combined keyword = Inr col \<and>
           segment_rows fetched j col = replicate (length (index (fetched ! j))) (Some 0)"
    if j: "j < length segments" and k: "keyword \<in> set keywords"
      and absent: "keyword \<notin> set (column_names (fetched ! j))" for j keyword
  proof -
    have j': "j < length fetched" using j len by simp
    from zero_fill_stage [OF wf j' k absent] resc comb show ?thesis by auto
  qed
  with segs len each show ?thesis by blast
qed

theorem zero_fill_survives_witness:
  "get_data
     (\<lambda>kws r geo cat.
        (Inr \<lparr>index = [(fst r - 719163) * ns_per_day, (snd r - 719163) * ns_per_day],
              columns = [(''A'', [50, if fst r = 737425 then 25 else 100 :: real])]\<rparr>
         :: error + real dataframe))
     [''A'', ''B''] (737425, 737800) '''' False ''d'' =
   Some (Inr
     \<lparr>index = [1577836800000000000, 1601078400000000000, 1601164800000000000,
               1610236800000000000],
      columns = [(''A'', [Some 100, Some 50, Some 50, Some (100 :: real)]),
                 (''B'', [Some 0, Some 0, Some 0, Some 0])]\<rparr>) \<and>
   (\<exists>segments fetched.
     divide_timeframe_range (fst (737425 :: int, 737800 :: int)) (snd (737425 :: int, 737800 :: int)) ''d'' None
       = Some (Inr segments) \<and>
     length fetched = length segments \<and>
     (\<forall>j < length segments.
        (\<lambda>kws r geo cat.
        (Inr \<lparr>index = [(fst r - 719163) * ns_per_day, (snd r - 719163) * ns_per_day],
              columns = [(''A'', [50, if fst r = 737425 then 25 else 100 :: real])]\<rparr>
         :: error + real dataframe))
          [''A'', ''B''] (segments ! j) '''' (if False then ''29'' else ''0'')
          = Inr (fetched ! j)) \<and>
     (\<forall>j < length segments. \<forall>keyword \<in> set [''A'', ''B''].
        keyword \<notin> set (column_names (fetched ! j)) \<longrightarrow>
        (\<exists>col. getitem
           \<lparr>index = [1577836800000000000, 1601078400000000000, 1601164800000000000,
               1610236800000000000],
      columns = [(''A'', [Some 100, Some 50, Some 50, Some (100 :: real)]),
                 (''B'', [Some 0, Some 0, Some 0, Some 0])]\<rparr> keyword = Inr col \<and>
           segment_rows fetched j col = replicate (length (index (fetched ! j))) (Some 0))))"
proof -
  let ?source = "(\<lambda>kws r geo cat.
        (Inr \<lparr>index = [(fst r - 719163) * ns_per_day, (snd r - 719163) * ns_per_day],
              columns = [(''A'', [50, if fst r = 737425 then 25 else 100 :: real])]\<rparr>
         :: error + real dataframe))"
  have run: "get_data ?source [''A'', ''B''] (737425, 737800) '''' False ''d'' =
    Some (Inr
     \<lparr>index = [1577836800000000000, 1601078400000000000, 1601164800000000000,
               1610236800000000000],
      columns = [(''A'', [Some 100, Some 50, Some 50, Some (100 :: real)]),
                 (''B'', [Some 0, Some 0, Some 0, Some 0])]\<rparr>)"
    by (simp add: get_data_def divide_timeframe_range_def strptime_def valid_date_def
        min_ordinal_def max_ordinal_def date_add_def segment_loop.simps frame_eval
        ns_per_day_def determine_overall_granularity_from_data_def date_diffs_def gaps_fit_def
        gap_days_def timedelta_fits_def mode_def)
  have source: "wf_frame segment_data"
    if "?source [''A'', ''B''] time_range '''' (if False then ''29'' else ''0'') = Inr segment_data"
    for time_range segment_data
    using that by (auto simp: wf_frame_def)
  note general = zero_fill_survives [OF run source]
  show ?thesis by (rule conjI [OF run general])
qed

text \<open>
  C1 as stated fails. With three segments whose values for one keyword are 10, 20
  and 40, 50 and 100, 100, the first pass doubles segment 0 to 20, 40 and the
  second pass doubles segment 1 to 80, 100: in the combined frame segment 0 ends at
  40 and segment 1 starts at 80. With two segments 10, 0 and 5, 6 the last value of
  segment 0 is 0, the factor is 1, and segment 0 ends at 0 where segment 1 starts
  at 5.
\<close>

theorem boundary_continuity_counterexample:
  "bind_err (adjust_scaling (map (fill_missing [''A''])
     [\<lparr>index = [0, 86400000000000], columns = [(''A'', [10, 20::real])]\<rparr>,
      \<lparr>index = [172800000000000, 259200000000000], columns = [(''A'', [40, 50::real])]\<rparr>,
      \<lparr>index = [345600000000000, 432000000000000], columns = [(''A'', [100, 100::real])]\<rparr>]) [''A''] 3) pd_concat =
     Inr \<lparr>index = [0, 86400000000000, 172800000000000, 259200000000000, 345600000000000, 432000000000000], columns = [(''A'', [Some 20, Some 40, Some 80, Some 100, Some 100, Some 100])]\<rparr> \<and>
   iloc (segment_rows
     [\<lparr>index = [0, 86400000000000], columns = [(''A'', [10, 20::real])]\<rparr>,
      \<lparr>index = [172800000000000, 259200000000000], columns = [(''A'', [40, 50::real])]\<rparr>,
      \<lparr>index = [345600000000000, 432000000000000], columns = [(''A'', [100, 100::real])]\<rparr>] 0
     [Some 20, Some 40, Some 80, Some 100, Some 100, Some (100::real)]) (- 1) = Inr (Some 40) \<and>
   iloc (segment_rows
     [\<lparr>index = [0, 86400000000000], columns = [(''A'', [10, 20::real])]\<rparr>,
      \<lparr>index = [172800000000000, 259200000000000], columns = [(''A'', [40, 50::real])]\<rparr>,
      \<lparr>index = [345600000000000, 432000000000000], columns = [(''A'', [100, 100::real])]\<rparr>] 1
     [Some 20, Some 40, Some 80, Some 100, Some 100, Some (100::real)]) 0 = Inr (Some 80) \<and>
   bind_err (adjust_scaling (map (fill_missing [''A''])
     [\<lparr>index = [0, 86400000000000], columns = [(''A'', [10, 0::real])]\<rparr>,
      \<lparr>index = [172800000000000, 259200000000000], columns = [(''A'', [5, 6::real])]\<rparr>]) [''A''] 2) pd_concat =
     Inr \<lparr>index = [0, 86400000000000, 172800000000000, 259200000000000], columns = [(''A'', [Some 10, Some 0, Some 5, Some 6])]\<rparr> \<and>
   iloc (segment_rows
     [\<lparr>index = [0, 86400000000000], columns = [(''A'', [10, 0::real])]\<rparr>,
      \<lparr>index = [172800000000000, 259200000000000], columns = [(''A'', [5, 6::real])]\<rparr>] 0
     [Some 10, Some 0, Some 5, Some (6::real)]) (- 1) = Inr (Some 0) \<and>
   iloc (segment_rows
     [\<lparr>index = [0, 86400000000000], columns = [(''A'', [10, 0::real])]\<rparr>,
      \<lparr>index = [172800000000000, 259200000000000], columns = [(''A'', [5, 6::real])]\<rparr>] 1
     [Some 10, Some 0, Some 5, Some (6::real)]) 0 = Inr (Some 5)"
  by (simp add: frame_eval)

text \<open>
  C1, as amended: at a boundary where the keyword's last fetched value in segment \<open>i\<close>
  is not 0, the keyword's last value of segment \<open>i\<close> after rescaling, which is also its
  value in the combined frame, equals the keyword's first value of segment \<open>i + 1\<close>
  as it was fetched (in exact arithmetic).
\<close>

theorem boundary_matches_fetched_head:
  assumes "\<forall>df \<in> set fetched. wf_frame df" "Suc i < length fetched" "keyword \<in> set keywords"
    and "bind_err (getitem (fetched ! i) keyword) (\<lambda>c. iloc c (- 1)) = Inr tail_value"
    and "tail_value \<noteq> 0"
    and "bind_err (getitem (fetched ! Suc i) keyword) (\<lambda>c. iloc c 0) = Inr head_value"
  shows "\<exists>rescaled combined col.
           adjust_scaling (map (fill_missing keywords) fetched) keywords (length fetched)
             = Inr rescaled \<and>
           bind_err (getitem (rescaled ! i) keyword) (\<lambda>c. iloc c (- 1)) = Inr head_value \<and>
           pd_concat rescaled = Inr combined \<and>
           getitem combined keyword = Inr col \<and>
           iloc (segment_rows fetched i col) (- 1) = Inr (Some head_value)"
proof -
  from assms(4) obtain c where c: "getitem (fetched ! i) keyword = Inr c"
    and cne: "c \<noteq> []" and cl: "last c = tail_value"
    by (auto simp: bind_err_Inr_iff iloc_last_iff)
  from assms(6) obtain h where h: "getitem (fetched ! Suc i) keyword = Inr h"
    and hne: "h \<noteq> []" and hh: "hd h = head_value"
    by (auto simp: bind_err_Inr_iff iloc_first_iff)
  have c': "map_of (columns (fill_missing keywords (fetched ! i))) keyword = Some c"
    using c by (simp add: getitem_Inr_iff map_of_fill_missing in_names_iff)
  have h': "map_of (columns (fill_missing keywords (fetched ! Suc i))) keyword = Some h"
    using h by (simp add: getitem_Inr_iff map_of_fill_missing in_names_iff)
  from normalize_run [OF assms(1), of "keywords"]
  obtain R where R: "adjust_scaling (map (fill_missing keywords) fetched) keywords
        (length fetched) = Inr R"
    and len: "length R = length fetched" and wfR: "\<forall>df \<in> set R. wf_frame df"
    and idx: "map index R = map index fetched"
    and sc: "\<forall>j. Suc j < length fetched \<longrightarrow>
        rescaled_on (set keywords) (fill_missing keywords (fetched ! Suc j))
          (fill_missing keywords (fetched ! j)) (R ! j)"
    by blast
  let ?c = "map (\<lambda>v. v * scale_value h c) c"
  have col: "map_of (columns (R ! i)) keyword = Some ?c"
    using sc assms(2,3) c' h' by (simp add: rescaled_on_def)
  have "scale_value h c = head_value / tail_value"
    using cne hne cl hh assms(5) by (simp add: scale_value_def)
  then have lastc: "last ?c = head_value"
    using cne cl assms(5) by (simp add: last_map)
  have iR: "i < length R" using assms(2) len by simp
  from pd_concat_column [OF wfR iR col]
  obtain combined cc where comb: "pd_concat R = Inr combined"
    "getitem combined keyword = Inr cc" "segment_rows R i cc = map Some ?c"
    by blast
  have "segment_rows fetched i cc = map Some ?c"
    using segment_rows_same_index [OF idx iR, of cc] comb(3) by simp
  then have "iloc (segment_rows fetched i cc) (- 1) = Inr (Some head_value)"
    using cne lastc by (simp add: iloc_last_iff last_map)
  moreover have "bind_err (getitem (R ! i) keyword) (\<lambda>c. iloc c (- 1)) = Inr head_value"
    using col cne lastc by (simp add: getitem_Some iloc_last_iff)
  ultimately show ?thesis using R comb by blast
qed

theorem boundary_matches_fetched_head_witness:
  "list_all wf_frame
     [\<lparr>index = [0, 86400000000000], columns = [(''A'', [10, 20::real])]\<rparr>,
      \<lparr>index = [172800000000000, 259200000000000], columns = [(''A'', [40, 50::real])]\<rparr>,
      \<lparr>index = [345600000000000, 432000000000000], columns = [(''A'', [100, 100::real])]\<rparr>] \<and>
   bind_err (getitem (
     [\<lparr>index = [0, 86400000000000], columns = [(''A'', [10, 20::real])]\<rparr>,
      \<lparr>index = [172800000000000, 259200000000000], columns = [(''A'', [40, 50::real])]\<rparr>,
      \<lparr>index = [345600000000000, 432000000000000], columns = [(''A'', [100, 100::real])]\<rparr>] ! 0) ''A'') (\<lambda>c. iloc c (- 1)) = Inr 20 \<and>
   bind_err (getitem (
     [\<lparr>index = [0, 86400000000000], columns = [(''A'', [10, 20::real])]\<rparr>,
      \<lparr>index = [172800000000000, 259200000000000], columns = [(''A'', [40, 50::real])]\<rparr>,
      \<lparr>index = [345600000000000, 432000000000000], columns = [(''A'', [100, 100::real])]\<rparr>] ! Suc 0) ''A'') (\<lambda>c. iloc c 0) = Inr 40 \<and>
   (\<exists>rescaled combined col.
      adjust_scaling (map (fill_missing [''A''])
        [\<lparr>index = [0, 86400000000000], columns = [(''A'', [10, 20::real])]\<rparr>,
      \<lparr>index = [172800000000000, 259200000000000], columns = [(''A'', [40, 50::real])]\<rparr>,
      \<lparr>index = [345600000000000, 432000000000000], columns = [(''A'', [100, 100::real])]\<rparr>]) [''A''] 3 = Inr rescaled \<and>
      bind_err (getitem (rescaled ! 0) ''A'') (\<lambda>c. iloc c (- 1)) = Inr 40 \<and>
      pd_concat rescaled = Inr combined \<and>
      getitem combined ''A'' = Inr col \<and>
      iloc (segment_rows
        [\<lparr>index = [0, 86400000000000], columns = [(''A'', [10, 20::real])]\<rparr>,
      \<lparr>index = [172800000000000, 259200000000000], columns = [(''A'', [40, 50::real])]\<rparr>,
      \<lparr>index = [345600000000000, 432000000000000], columns = [(''A'', [100, 100::real])]\<rparr>] 0 col) (- 1) = Inr (Some 40))"
proof -
  let ?ex = "[\<lparr>index = [0, 86400000000000], columns = [(''A'', [10, 20::real])]\<rparr>,
      \<lparr>index = [172800000000000, 259200000000000], columns = [(''A'', [40, 50::real])]\<rparr>,
      \<lparr>index = [345600000000000, 432000000000000], columns = [(''A'', [100, 100::real])]\<rparr>]"
  have wf: "\<forall>df \<in> set ?ex. wf_frame df" by (simp add: wf_frame_def)
  have i: "Suc 0 < length ?ex" by simp
  have k: "''A'' \<in> set [''A'']" by simp
  have t: "bind_err (getitem (?ex ! 0) ''A'') (\<lambda>c. iloc c (- 1)) = Inr 20"
    by (simp add: frame_eval)
  have nz: "(20::real) \<noteq> 0" by simp
  have h: "bind_err (getitem (?ex ! Suc 0) ''A'') (\<lambda>c. iloc c 0) = Inr 40"
    by (simp add: frame_eval)
  have wfl: "list_all wf_frame ?ex" by (simp add: wf_frame_def)
  have len: "length ?ex = 3" by simp
  note general = boundary_matches_fetched_head [OF wf i k t nz h, unfolded len]
  show ?thesis by (rule conjI [OF wfl conjI [OF t conjI [OF h general]]])
qed

text \<open>
  C2 as stated fails when the current segment is the empty one: its first value is
  taken as 0, the previous segment's last value 50 is not 0, the factor is
  0 / 50 = 0, and the previous segment's column becomes 0, 0.
\<close>

theorem empty_segment_scale_counterexample:
  "df_empty (fill_missing [''A''] (\<lparr>index = [], columns = []\<rparr> :: real dataframe)) \<and>
   scale_factor (fill_missing [''A''] (\<lparr>index = [], columns = []\<rparr> :: real dataframe))
     (fill_missing [''A''] \<lparr>index = [0, 86400000000000], columns = [(''A'', [25, 50::real]), (''isPartial'', [0, 0])]\<rparr>) ''A'' = Inr 0 \<and>
   adjust_scaling (map (fill_missing [''A''])
     [\<lparr>index = [0, 86400000000000], columns = [(''A'', [25, 50::real]), (''isPartial'', [0, 0])]\<rparr>,
      (\<lparr>index = [], columns = []\<rparr> :: real dataframe)]) [''A''] 2 =
     Inr [\<lparr>index = [0, 86400000000000], columns = [(''A'', [0, 0::real]), (''isPartial'', [0, 0])]\<rparr>,
          (\<lparr>index = [], columns = [(''A'', [])]\<rparr> :: real dataframe)]"
  by (simp add: frame_eval)

text \<open>
  C2, as amended: when the previous segment's frame is empty, the scale factor is 1 and
  multiplying by it leaves the previous frame's index and every column unchanged.
\<close>

theorem previous_empty_scale_one:
  assumes "df_empty previous" "wf_frame current"
    and "getitem current keyword = Inr h" "getitem previous keyword = Inr c"
  shows "scale_factor current previous keyword = Inr 1 \<and>
         (\<exists>p. imul previous keyword 1 = Inr p \<and> index p = index previous \<and>
              column_names p = column_names previous \<and>
              (\<forall>k. getitem p k = getitem previous k))"
proof
  have "h \<noteq> []" if "\<not> df_empty current"
    using that df_empty_iff [OF assms(2), of keyword h] assms(3) by (simp add: getitem_Inr_iff)
  then show "scale_factor current previous keyword = Inr 1"
    using assms(1,3) by (auto simp: scale_factor_def iloc_first)
next
  have k: "keyword \<in> set (column_names previous)"
    using assms(4) by (simp add: getitem_Inr_iff in_names_iff)
  have "imul previous keyword 1 = Inr (setitem previous keyword c)"
    using assms(4) by (simp add: imul_def)
  moreover have "getitem (setitem previous keyword c) k = getitem previous k" for k
    using assms(4) by (simp add: getitem_def map_of_setitem getitem_Inr_iff split: option.splits)
  ultimately show "\<exists>p. imul previous keyword 1 = Inr p \<and> index p = index previous \<and>
              column_names p = column_names previous \<and>
              (\<forall>k. getitem p k = getitem previous k)"
    using k by (auto simp: column_names_setitem)
qed

theorem previous_empty_scale_one_witness:
  "df_empty (fill_missing [''A''] (\<lparr>index = [], columns = []\<rparr> :: real dataframe)) \<and>
   wf_frame (fill_missing [''A''] \<lparr>index = [0, 86400000000000], columns = [(''A'', [40, 50::real]), (''isPartial'', [0, 0])]\<rparr>) \<and>
   getitem (fill_missing [''A''] \<lparr>index = [0, 86400000000000], columns = [(''A'', [40, 50::real]), (''isPartial'', [0, 0])]\<rparr>) ''A'' = Inr [40, 50] \<and>
   getitem (fill_missing [''A''] (\<lparr>index = [], columns = []\<rparr> :: real dataframe)) ''A'' = Inr [] \<and>
   scale_factor (fill_missing [''A''] \<lparr>index = [0, 86400000000000], columns = [(''A'', [40, 50::real]), (''isPartial'', [0, 0])]\<rparr>)
     (fill_missing [''A''] (\<lparr>index = [], columns = []\<rparr> :: real dataframe)) ''A'' = Inr 1"
proof -
  let ?prev = "fill_missing [''A''] (\<lparr>index = [], columns = []\<rparr> :: real dataframe)"
  let ?cur = "fill_missing [''A''] \<lparr>index = [0, 86400000000000], columns = [(''A'', [40, 50::real]), (''isPartial'', [0, 0])]\<rparr>"
  have a: "df_empty ?prev" by (simp add: frame_eval)
  have b: "wf_frame ?cur" by (simp add: frame_eval)
  have c: "getitem ?cur ''A'' = Inr [40, 50]" by (simp add: frame_eval)
  have d: "getitem ?prev ''A'' = Inr []" by (simp add: frame_eval)
  note general = conjunct1 [OF previous_empty_scale_one [OF a b c d]]
  show ?thesis by (rule conjI [OF a conjI [OF b conjI [OF c conjI [OF d general]]]])
qed

text \<open>
  C10: the rescale loops succeed on the zero-filled frames and return as many frames.
  The last frame is the zero-filled fetched frame itself, and its columns are its rows
  of the combined frame. In every other frame the index and the column names are
  unchanged, a column that is not a requested keyword is unchanged, and the column of
  each requested keyword is the fetched column multiplied by one factor: the scale
  factor computed from the two fetched frames at that boundary.
\<close>

theorem rescale_frame_effect:
  assumes "\<forall>df \<in> set fetched. wf_frame df"
  shows "\<exists>rescaled.
     adjust_scaling (map (fill_missing keywords) fetched) keywords (length fetched)
       = Inr rescaled \<and>
     length rescaled = length fetched \<and>
     (\<forall>i. Suc i = length fetched \<longrightarrow>
        rescaled ! i = fill_missing keywords (fetched ! i) \<and>
        (\<exists>combined. pd_concat rescaled = Inr combined \<and>
           (\<forall>k c. getitem (fill_missing keywords (fetched ! i)) k = Inr c \<longrightarrow>
              (\<exists>col. getitem combined k = Inr col \<and>
                 segment_rows fetched i col = map Some c)))) \<and>
     (\<forall>i. Suc i < length fetched \<longrightarrow>
        index (rescaled ! i) = index (fetched ! i) \<and>
        column_names (rescaled ! i) = column_names (fill_missing keywords (fetched ! i)) \<and>
        (\<forall>k. k \<notin> set keywords \<longrightarrow> getitem (rescaled ! i) k = getitem (fetched ! i) k) \<and>
        (\<forall>k \<in> set keywords. \<exists>f c.
           scale_factor (fill_missing keywords (fetched ! Suc i))
             (fill_missing keywords (fetched ! i)) k = Inr f \<and>
           getitem (fill_missing keywords (fetched ! i)) k = Inr c \<and>
           getitem (rescaled ! i) k = Inr (map (\<lambda>v. v * f) c)))"
proof -
  from normalize_run [OF assms, of "keywords"]
  obtain R where R: "adjust_scaling (map (fill_missing keywords) fetched) keywords
        (length fetched) = Inr R"
    and len: "length R = length fetched" and wfR: "\<forall>df \<in> set R. wf_frame df"
    and idx: "map index R = map index fetched"
    and sc: "\<forall>j. Suc j < length fetched \<longrightarrow>
        rescaled_on (set keywords) (fill_missing keywords (fetched ! Suc j))
          (fill_missing keywords (fetched ! j)) (R ! j)"
    and lst: "\<forall>j. Suc j = length fetched \<longrightarrow> R ! j = fill_missing keywords (fetched ! j)"
    by blast
  have last_part: "R ! i = fill_missing keywords (fetched ! i) \<and>
        (\<exists>combined. pd_concat R = Inr combined \<and>
           (\<forall>k c. getitem (fill_missing keywords (fetched ! i)) k = Inr c \<longrightarrow>
              (\<exists>col. getitem combined k = Inr col \<and>
                 segment_rows fetched i col = map Some c)))"
    if i: "Suc i = length fetched" for i
  proof
    show eq: "R ! i = fill_missing keywords (fetched ! i)" using lst i by simp
    have iR: "i < length R" using i len by simp
    then have "R \<noteq> []" by auto
    then obtain combined where comb: "pd_concat R = Inr combined"
      by (simp add: pd_concat_def)
    have "\<exists>col. getitem combined k = Inr col \<and> segment_rows fetched i col = map Some c"
      if "getitem (fill_missing keywords (fetched ! i)) k = Inr c" for k c
    proof -
      have "map_of (columns (R ! i)) k = Some c"
        using that eq by (simp add: getitem_Inr_iff)
      from pd_concat_column [OF wfR iR this] comb
      obtain col where "getitem combined k = Inr col" "segment_rows R i col = map Some c"
        by auto
      moreover have "segment_rows fetched i col = segment_rows R i col"
        using idx iR by (intro segment_rows_same_index [symmetric])
      ultimately show ?thesis by auto
    qed
    with comb show "\<exists>combined. pd_concat R = Inr combined \<and>
           (\<forall>k c. getitem (fill_missing keywords (fetched ! i)) k = Inr c \<longrightarrow>
              (\<exists>col. getitem combined k = Inr col \<and>
                 segment_rows fetched i col = map Some c))"
      by blast
  qed
  have inner_part: "index (R ! i) = index (fetched ! i) \<and>
        column_names (R ! i) = column_names (fill_missing keywords (fetched ! i)) \<and>
        (\<forall>k. k \<notin> set keywords \<longrightarrow> getitem (R ! i) k = getitem (fetched ! i) k) \<and>
        (\<forall>k \<in> set keywords. \<exists>f c.
           scale_factor (fill_missing keywords (fetched ! Suc i))
             (fill_missing keywords (fetched ! i)) k = Inr f \<and>
           getitem (fill_missing keywords (fetched ! i)) k = Inr c \<and>
           getitem (R ! i) k = Inr (map (\<lambda>v. v * f) c))"
    if i: "Suc i < length fetched" for i
  proof -
    let ?cur = "fill_missing keywords (fetched ! Suc i)"
    let ?prev = "fill_missing keywords (fetched ! i)"
    have inv: "rescaled_on (set keywords) ?cur ?prev (R ! i)" using sc i by simp
    have wfc: "wf_frame ?cur" and wfp: "wf_frame ?prev"
      using assms i by (simp_all add: wf_fill_missing)
    have a: "index (R ! i) = index (fetched ! i)"
      using inv by (simp add: rescaled_on_def)
    have b: "column_names (R ! i) = column_names ?prev"
      using inv by (simp add: rescaled_on_def)
    have c: "getitem (R ! i) k = getitem (fetched ! i) k" if "k \<notin> set keywords" for k
    proof -
      have "map_of (columns (R ! i)) k = map_of (columns ?prev) k"
        using inv that by (simp add: rescaled_on_def)
      then have "getitem (R ! i) k = getitem ?prev k" by (simp add: getitem_def)
      then show ?thesis using that by (simp add: getitem_fill_missing_other)
    qed
    have d: "\<exists>f c. scale_factor ?cur ?prev k = Inr f \<and> getitem ?prev k = Inr c \<and>
           getitem (R ! i) k = Inr (map (\<lambda>v. v * f) c)" if "k \<in> set keywords" for k
    proof -
      have "k \<in> set (column_names ?cur)" "k \<in> set (column_names ?prev)"
        using that by (simp_all add: names_fill_missing)
      then obtain h c where h: "map_of (columns ?cur) k = Some h"
        and c: "map_of (columns ?prev) k = Some c"
        by (auto simp: in_names_iff)
      have "scale_factor ?cur ?prev k = Inr (scale_value h c)"
        using wfc wfp h c by (rule scale_factor_value)
      moreover have "getitem ?prev k = Inr c" using c by (rule getitem_Some)
      moreover have "getitem (R ! i) k = Inr (map (\<lambda>v. v * scale_value h c) c)"
        using inv that h c by (simp add: rescaled_on_def getitem_Inr_iff)
      ultimately show ?thesis by blast
    qed
    show ?thesis using a b c d by blast
  qed
  show ?thesis using R len last_part inner_part by blast
qed

theorem rescale_frame_effect_witness:
  "list_all wf_frame
     [\<lparr>index = [0, 86400000000000], columns = [(''A'', [25, 50::real]), (''isPartial'', [0, 0])]\<rparr>,
          \<lparr>index = [172800000000000, 259200000000000], columns = [(''A'', [100, 80::real]), (''isPartial'', [0, 1])]\<rparr>] \<and>
   adjust_scaling (map (fill_missing [''A''])
     [\<lparr>index = [0, 86400000000000], columns = [(''A'', [25, 50::real]), (''isPartial'', [0, 0])]\<rparr>,
          \<lparr>index = [172800000000000, 259200000000000], columns = [(''A'', [100, 80::real]), (''isPartial'', [0, 1])]\<rparr>]) [''A''] 2 =
     Inr [\<lparr>index = [0, 86400000000000], columns = [(''A'', [50, 100::real]), (''isPartial'', [0, 0])]\<rparr>,
          \<lparr>index = [172800000000000, 259200000000000], columns = [(''A'', [100, 80::real]), (''isPartial'', [0, 1])]\<rparr>] \<and>
   (\<exists>rescaled.
     adjust_scaling (map (fill_missing [''A''])
       [\<lparr>index = [0, 86400000000000], columns = [(''A'', [25, 50::real]), (''isPartial'', [0, 0])]\<rparr>,
          \<lparr>index = [172800000000000, 259200000000000], columns = [(''A'', [100, 80::real]), (''isPartial'', [0, 1])]\<rparr>]) [''A''] (length
       [\<lparr>index = [0, 86400000000000], columns = [(''A'', [25, 50::real]), (''isPartial'', [0, 0])]\<rparr>,
          \<lparr>index = [172800000000000, 259200000000000], columns = [(''A'', [100, 80::real]), (''isPartial'', [0, 1])]\<rparr>])
       = Inr rescaled \<and>
     length rescaled = length
       [\<lparr>index = [0, 86400000000000], columns = [(''A'', [25, 50::real]), (''isPartial'', [0, 0])]\<rparr>,
          \<lparr>index = [172800000000000, 259200000000000], columns = [(''A'', [100, 80::real]), (''isPartial'', [0, 1])]\<rparr>] \<and>
     (\<forall>i. Suc i = length
       [\<lparr>index = [0, 86400000000000], columns = [(''A'', [25, 50::real]), (''isPartial'', [0, 0])]\<rparr>,
          \<lparr>index = [172800000000000, 259200000000000], columns = [(''A'', [100, 80::real]), (''isPartial'', [0, 1])]\<rparr>] \<longrightarrow>
        rescaled ! i = fill_missing [''A''] (
          [\<lparr>index = [0, 86400000000000], columns = [(''A'', [25, 50::real]), (''isPartial'', [0, 0])]\<rparr>,
          \<lparr>index = [172800000000000, 259200000000000], columns = [(''A'', [100, 80::real]), (''isPartial'', [0, 1])]\<rparr>] ! i) \<and>
        (\<exists>combined. pd_concat rescaled = Inr combined \<and>
           (\<forall>k c. getitem (fill_missing [''A''] (
              [\<lparr>index = [0, 86400000000000], columns = [(''A'', [25, 50::real]), (''isPartial'', [0, 0])]\<rparr>,
          \<lparr>index = [172800000000000, 259200000000000], columns = [(''A'', [100, 80::real]), (''isPartial'', [0, 1])]\<rparr>] ! i)) k = Inr c \<longrightarrow>
              (\<exists>col. getitem combined k = Inr col \<and>
                 segment_rows
                   [\<lparr>index = [0, 86400000000000], columns = [(''A'', [25, 50::real]), (''isPartial'', [0, 0])]\<rparr>,
          \<lparr>index = [172800000000000, 259200000000000], columns = [(''A'', [100, 80::real]), (''isPartial'', [0, 1])]\<rparr>] i col = map Some c)))) \<and>
     (\<forall>i. Suc i < length
       [\<lparr>index = [0, 86400000000000], columns = [(''A'', [25, 50::real]), (''isPartial'', [0, 0])]\<rparr>,
          \<lparr>index = [172800000000000, 259200000000000], columns = [(''A'', [100, 80::real]), (''isPartial'', [0, 1])]\<rparr>] \<longrightarrow>
        index (rescaled ! i) = index (
          [\<lparr>index = [0, 86400000000000], columns = [(''A'', [25, 50::real]), (''isPartial'', [0, 0])]\<rparr>,
          \<lparr>index = [172800000000000, 259200000000000], columns = [(''A'', [100, 80::real]), (''isPartial'', [0, 1])]\<rparr>] ! i) \<and>
        column_names (rescaled ! i) = column_names (fill_missing [''A''] (
          [\<lparr>index = [0, 86400000000000], columns = [(''A'', [25, 50::real]), (''isPartial'', [0, 0])]\<rparr>,
          \<lparr>index = [172800000000000, 259200000000000], columns = [(''A'', [100, 80::real]), (''isPartial'', [0, 1])]\<rparr>] ! i)) \<and>
        (\<forall>k. k \<notin> set [''A''] \<longrightarrow> getitem (rescaled ! i) k = getitem (
          [\<lparr>index = [0, 86400000000000], columns = [(''A'', [25, 50::real]), (''isPartial'', [0, 0])]\<rparr>,
          \<lparr>index = [172800000000000, 259200000000000], columns = [(''A'', [100, 80::real]), (''isPartial'', [0, 1])]\<rparr>] ! i) k) \<and>
        (\<forall>k \<in> set [''A'']. \<exists>f c.
           scale_factor (fill_missing [''A''] (
             [\<lparr>index = [0, 86400000000000], columns = [(''A'', [25, 50::real]), (''isPartial'', [0, 0])]\<rparr>,
          \<lparr>index = [172800000000000, 259200000000000], columns = [(''A'', [100, 80::real]), (''isPartial'', [0, 1])]\<rparr>] ! Suc i))
             (fill_missing [''A''] (
             [\<lparr>index = [0, 86400000000000], columns = [(''A'', [25, 50::real]), (''isPartial'', [0, 0])]\<rparr>,
          \<lparr>index = [172800000000000, 259200000000000], columns = [(''A'', [100, 80::real]), (''isPartial'', [0, 1])]\<rparr>] ! i)) k = Inr f \<and>
           getitem (fill_missing [''A''] (
             [\<lparr>index = [0, 86400000000000], columns = [(''A'', [25, 50::real]), (''isPartial'', [0, 0])]\<rparr>,
          \<lparr>index = [172800000000000, 259200000000000], columns = [(''A'', [100, 80::real]), (''isPartial'', [0, 1])]\<rparr>] ! i)) k = Inr c \<and>
           getitem (rescaled ! i) k = Inr (map (\<lambda>v. v * f) c))))"
proof -
  let ?ex = "[\<lparr>index = [0, 86400000000000], columns = [(''A'', [25, 50::real]), (''isPartial'', [0, 0])]\<rparr>,
          \<lparr>index = [172800000000000, 259200000000000], columns = [(''A'', [100, 80::real]), (''isPartial'', [0, 1])]\<rparr>]"
  have wf: "\<forall>df \<in> set ?ex. wf_frame df" by (simp add: wf_frame_def)
  have wfl: "list_all wf_frame ?ex" by (simp add: wf_frame_def)
  have run: "adjust_scaling (map (fill_missing [''A'']) ?ex) [''A''] 2 =
     Inr [\<lparr>index = [0, 86400000000000], columns = [(''A'', [50, 100::real]), (''isPartial'', [0, 0])]\<rparr>,
          \<lparr>index = [172800000000000, 259200000000000], columns = [(''A'', [100, 80::real]), (''isPartial'', [0, 1])]\<rparr>]"
    by (simp add: frame_eval)
  note general = rescale_frame_effect [OF wf, of "[''A'']"]
  show ?thesis by (rule conjI [OF wfl conjI [OF run general]])
qed

end
